theory Spec2Isabelle
  imports Main "HOL-Library.AList"
begin

section \<open>Python values, exceptions and outcomes\<close>

text \<open>
  The module \<^verbatim>\<open>mysite/search_engine/helps.py\<close> works on JSON-like Python values
  (the hits of a search response, the body of the remote answer) and on exception objects.
  Exception classes are the ones the module names or that its own operations raise;
  \<open>OtherException n\<close> is any further class below \<^verbatim>\<open>Exception\<close> that is not a subclass of
  one of the named classes, \<open>BaseOnly n\<close> a class below \<^verbatim>\<open>BaseException\<close> only
  (\<^verbatim>\<open>KeyboardInterrupt\<close>, say), which \<^verbatim>\<open>except Exception\<close> lets through.
\<close>

datatype exn_class =
    PlainException
  | FetchError
  | ClientConnectorError
  | ClientResponseError
  | HTTPNotFound
  | TypeError
  | KeyError
  | IndexError
  | AttributeError
  | ValueError
  | OtherException string
  | BaseOnly string

text \<open>
  An exception object has its class, its \<^verbatim>\<open>args\<close> tuple, its instance attributes,
  and the two chaining slots \<^verbatim>\<open>__cause__\<close> (set by \<^verbatim>\<open>raise ... from\<close> only) and
  \<^verbatim>\<open>__context__\<close> (set by Python when an exception is raised while another is handled).
\<close>

datatype pyval =
    VNone
  | VBool bool
  | VInt int
  | VStr string
  | VList "pyval list"
  | VDict "(string \<times> pyval) list"
  | VExn exn
and exn =
    Exn (exn_class: exn_class) (exn_args: "pyval list") (exn_attrs: "(string \<times> pyval) list")
        (exn_cause: "exn option") (exn_context: "exn option")

text \<open>
  An ordinary call returns or raises: \<open>exn + 'a\<close>, the exception on the left. A
  coroutine run by the event loop has a third way out: it never comes back (it waits for a
  semaphore slot that nobody will free).
\<close>

datatype 'a outcome = Returns 'a | Raises exn | Blocks

fun class_name :: "exn_class \<Rightarrow> string" where
  "class_name PlainException = ''Exception''"
| "class_name FetchError = ''FetchError''"
| "class_name ClientConnectorError = ''ClientConnectorError''"
| "class_name ClientResponseError = ''ClientResponseError''"
| "class_name HTTPNotFound = ''HTTPNotFound''"
| "class_name TypeError = ''TypeError''"
| "class_name KeyError = ''KeyError''"
| "class_name IndexError = ''IndexError''"
| "class_name AttributeError = ''AttributeError''"
| "class_name ValueError = ''ValueError''"
| "class_name (OtherException n) = n"
| "class_name (BaseOnly n) = n"

text \<open>\<^verbatim>\<open>isinstance(e, Exception)\<close>: every class of the model but the \<open>BaseOnly\<close> ones.\<close>

fun is_Exception :: "exn_class \<Rightarrow> bool" where
  "is_Exception (BaseOnly n) = False"
| "is_Exception c = True"

text \<open>
  \<^verbatim>\<open>except C as e\<close> for the handlers of the module: \<^verbatim>\<open>Exception\<close> takes every
  class below it, the other classes are leaves of the model.
\<close>

definition isinstance :: "exn \<Rightarrow> exn_class \<Rightarrow> bool" where
  "isinstance e c = (if c = PlainException then is_Exception (exn_class e) else exn_class e = c)"

text \<open>A fresh exception \<^verbatim>\<open>C(*args)\<close>, with nothing chained to it.\<close>

definition new_exn :: "exn_class \<Rightarrow> pyval list \<Rightarrow> exn" where
  "new_exn c as = Exn c as [] None None"

text \<open>
  Raising \<open>e\<close> inside an \<^verbatim>\<open>except\<close> block that handles \<open>h\<close>: Python stores \<open>h\<close> as
  the \<^verbatim>\<open>__context__\<close> of \<open>e\<close>; \<^verbatim>\<open>__cause__\<close> stays as it was.
\<close>

definition raise_in_handler :: "exn \<Rightarrow> exn \<Rightarrow> exn" where
  "raise_in_handler h e = Exn (exn_class e) (exn_args e) (exn_attrs e) (exn_cause e) (Some h)"

text \<open>Truth value of an object, as \<^verbatim>\<open>if x\<close> and \<^verbatim>\<open>not x\<close> take it.\<close>

fun truthy :: "pyval \<Rightarrow> bool" where
  "truthy VNone = False"
| "truthy (VBool b) = b"
| "truthy (VInt i) = (i \<noteq> 0)"
| "truthy (VStr s) = (s \<noteq> [])"
| "truthy (VList xs) = (xs \<noteq> [])"
| "truthy (VDict kvs) = (kvs \<noteq> [])"
| "truthy (VExn e) = True"

text \<open>
  \<^verbatim>\<open>obj[key]\<close> with a string key: a dictionary answers or raises \<^verbatim>\<open>KeyError(key)\<close>,
  every other value of the model raises \<^verbatim>\<open>TypeError\<close> (its message is not modelled).
\<close>

fun subscript :: "pyval \<Rightarrow> string \<Rightarrow> exn + pyval" where
  "subscript (VDict kvs) k =
     (case map_of kvs k of
        Some v \<Rightarrow> Inr v
      | None \<Rightarrow> Inl (new_exn KeyError [VStr k]))"
| "subscript v k = Inl (new_exn TypeError [])"

text \<open>
  \<^verbatim>\<open>obj[key] = v\<close> with a string key; the result is the object after the store. A
  dictionary keeps the position of a key it already has and puts a new key last.
\<close>

fun setitem :: "pyval \<Rightarrow> string \<Rightarrow> pyval \<Rightarrow> exn + pyval" where
  "setitem (VDict kvs) k v = Inr (VDict (AList.update k v kvs))"
| "setitem obj k v = Inl (new_exn TypeError [])"

text \<open>\<^verbatim>\<open>'literal' + x\<close>: concatenation when \<open>x\<close> is a string, \<^verbatim>\<open>TypeError\<close> otherwise.\<close>

fun str_add :: "string \<Rightarrow> pyval \<Rightarrow> exn + pyval" where
  "str_add lit (VStr s) = Inr (VStr (lit @ s))"
| "str_add lit v = Inl (new_exn TypeError [])"

text \<open>
  \<^verbatim>\<open>ce.strerror\<close> of a connector error, an \<^verbatim>\<open>OSError\<close>: the attribute always exists
  and is \<^verbatim>\<open>None\<close> when the error was built without a message.
\<close>

definition strerror :: "exn \<Rightarrow> pyval" where
  "strerror ce = (case map_of (exn_attrs ce) ''strerror'' of Some v \<Rightarrow> v | None \<Rightarrow> VNone)"

text \<open>Attribute access \<^verbatim>\<open>exc.name\<close> on an exception object.\<close>

definition getattr :: "exn \<Rightarrow> string \<Rightarrow> exn + pyval" where
  "getattr e n =
     (case map_of (exn_attrs e) n of
        Some v \<Rightarrow> Inr v
      | None \<Rightarrow> Inl (new_exn AttributeError []))"

section \<open>Module constants\<close>

definition DEFAULT_CONCUR_REQ :: int where
  "DEFAULT_CONCUR_REQ = 5"

definition MAX_CONCUR_REQ :: int where
  "MAX_CONCUR_REQ = 1000"

definition AWS_AUTHOR_API :: string where
  "AWS_AUTHOR_API = ''https://ie4djxzt8j.execute-api.eu-west-1.amazonaws.com/coding''"

datatype HTTPStatus = ok | not_found | error

text \<open>
  \<^verbatim>\<open>Result = namedtuple('Result', 'status data')\<close>; the data of a result is the record
  object the task worked on, held by reference (its address in the store below).
\<close>

datatype Result = Result (res_status: HTTPStatus) (res_data: nat)

text \<open>
  \<^verbatim>\<open>class FetchError(Exception)\<close> with \<^verbatim>\<open>__init__(self, id, error)\<close>: the constructor
  stores both attributes, and \<^verbatim>\<open>BaseException\<close> keeps the positional arguments in
  \<^verbatim>\<open>args\<close>. The second argument of \<open>FetchError_init\<close> is the \<^verbatim>\<open>from\<close> clause of the
  \<^verbatim>\<open>raise\<close> statement, if it has one.
\<close>

definition FetchError_init :: "pyval \<Rightarrow> pyval \<Rightarrow> exn option \<Rightarrow> exn" where
  "FetchError_init ident err cause =
     Exn FetchError [ident, err] [(''id'', ident), (''error'', err)] cause None"

section \<open>The remote call\<close>

text \<open>
  The answer of the remote side as \<^verbatim>\<open>call_service\<close> reads it: status, reason phrase,
  headers, and what \<^verbatim>\<open>response.json()\<close> gives (a parsed body, or the exception of a body
  that does not parse).
\<close>

record response =
  status :: int
  reason :: pyval
  headers :: pyval
  json :: "exn + pyval"

text \<open>
  The transport, \<^verbatim>\<open>aiohttp.ClientSession(json_serialize=ujson.dumps).post(url, json=data)\<close>:
  an external collaborator, given as a function of the request. It answers or raises; a
  transport that never answers is outside the model.
\<close>

type_synonym transport = "string \<Rightarrow> pyval \<Rightarrow> exn + response"

text \<open>
  The constructor of \<^verbatim>\<open>aiohttp.ClientResponseError\<close>, an external class:
  \<^verbatim>\<open>__init__(self, request_info, history, *, code, message, headers)\<close>. The two
  positional arguments are required and the others are keyword-only, so a call with any
  other number of positional arguments raises \<^verbatim>\<open>TypeError\<close> instead of building the
  error. A call that fits keeps the positional arguments in \<^verbatim>\<open>args\<close> and all of
  them as attributes.
\<close>

definition ClientResponseError_init :: "pyval list \<Rightarrow> (string \<times> pyval) list \<Rightarrow> exn + exn" where
  "ClientResponseError_init positional keywords =
     (case positional of
        [request_info, history] \<Rightarrow>
          Inr (Exn ClientResponseError [request_info, history]
                 ([(''request_info'', request_info), (''history'', history)] @ keywords)
                 None None)
      | other \<Rightarrow> Inl (new_exn TypeError []))"

text \<open>
  \<^verbatim>\<open>call_service(self, base_url, data, method)\<close>. The \<^verbatim>\<open>logger.debug\<close> lines build a
  string from values that always convert and change nothing else; they are left out.
  The first stage is the \<^verbatim>\<open>if method == 'POST'\<close> block, which leaves \<^verbatim>\<open>response\<close> at
  \<^verbatim>\<open>None\<close> for any other method.
\<close>

definition post_stage :: "transport \<Rightarrow> string \<Rightarrow> pyval \<Rightarrow> string \<Rightarrow> exn + response option" where
  "post_stage post url payload method =
     (if method = ''POST'' then
        (case post url payload of
           Inr resp \<Rightarrow> Inr (Some resp)
         | Inl ce \<Rightarrow>
             if isinstance ce ClientConnectorError then
               (case str_add ''call author aws service: '' (strerror ce) of
                  Inr message \<Rightarrow> Inl (raise_in_handler ce (new_exn PlainException [message]))
                | Inl te \<Rightarrow> Inl (raise_in_handler ce te))
             else if isinstance ce PlainException then
               Inl (raise_in_handler ce (new_exn PlainException [VExn ce]))
             else Inl ce)
      else Inr None)"

text \<open>
  The rest of \<^verbatim>\<open>call_service\<close>: \<^verbatim>\<open>response.status\<close> on \<^verbatim>\<open>None\<close> is an
  \<^verbatim>\<open>AttributeError\<close>. For a status other than 200, line 61 calls the constructor with
  the three keywords \<^verbatim>\<open>code\<close>, \<^verbatim>\<open>message\<close>, \<^verbatim>\<open>headers\<close> and no positional
  argument, and raises what comes of it: the error it builds, or the exception of the
  constructor call itself. Either way the body is not read.
\<close>

definition call_service :: "transport \<Rightarrow> string \<Rightarrow> pyval \<Rightarrow> string \<Rightarrow> exn + pyval" where
  "call_service post base_url payload method =
     (let url = base_url in
      case post_stage post url payload method of
        Inl e \<Rightarrow> Inl e
      | Inr None \<Rightarrow> Inl (new_exn AttributeError [])
      | Inr (Some resp) \<Rightarrow>
          if status resp \<noteq> 200 then
            (case ClientResponseError_init []
                    [(''code'', VInt (status resp)), (''message'', reason resp),
                     (''headers'', headers resp)] of
               Inl te \<Rightarrow> Inl te
             | Inr e \<Rightarrow> Inl e)
          else json resp)"

section \<open>Enrichment\<close>

text \<open>
  \<^verbatim>\<open>book_details['_source'][key] = v\<close>: the nested dictionary is fetched, then stored
  into. The record is mutated in place; the model returns the record after the statement
  next to its result, unchanged when the statement raises.
\<close>

definition store_source :: "pyval \<Rightarrow> string \<Rightarrow> pyval \<Rightarrow> (exn + unit) \<times> pyval" where
  "store_source book_details k v =
     (case subscript book_details ''_source'' of
        Inl e \<Rightarrow> (Inl e, book_details)
      | Inr src \<Rightarrow>
          (case setitem src k v of
             Inl e \<Rightarrow> (Inl e, book_details)
           | Inr src' \<Rightarrow>
               (Inr (),
                (case book_details of
                   VDict kvs \<Rightarrow> VDict (AList.update ''_source'' src' kvs)
                 | other \<Rightarrow> other))))"

text \<open>
  \<^verbatim>\<open>add_additional_data_to_record(data, qry, book_details)\<close>. Python evaluates the right
  side \<^verbatim>\<open>data['author']\<close> before the target of the first assignment.
\<close>

definition add_additional_data_to_record ::
    "pyval \<Rightarrow> pyval \<Rightarrow> pyval \<Rightarrow> (exn + unit) \<times> pyval" where
  "add_additional_data_to_record rdata qry book_details =
     (case subscript rdata ''author'' of
        Inl e \<Rightarrow> (Inl e, book_details)
      | Inr author \<Rightarrow>
          (case store_source book_details ''author'' author of
             (Inl e, bd1) \<Rightarrow> (Inl e, bd1)
           | (Inr u, bd1) \<Rightarrow> store_source bd1 ''query'' qry))"

section \<open>The world of one batch\<close>

text \<open>
  What a batch changes: the record objects (a store from addresses to values; a record
  list is a list of addresses, as a Python list holds references), the jobs handed to the
  loop's executor by \<^verbatim>\<open>run_in_executor\<close> and not yet run (data, query term, address of
  the record), the free slots of the batch's semaphore, and the trace of the effects that
  the claims speak about.
\<close>

datatype event =
    SemaphoreCreated int
  | ProgressBar nat
  | ErrorReport pyval pyval

type_synonym job = "pyval \<times> pyval \<times> nat"

record world =
  heap :: "nat \<Rightarrow> pyval"
  executor :: "job list"
  free_slots :: int
  events :: "event list"

text \<open>
  The executor runs a job in a worker thread. Nobody reads the future that
  \<^verbatim>\<open>run_in_executor\<close> returns, so an exception of the job is lost and the record stays as
  the job left it.
\<close>

definition run_job :: "job \<Rightarrow> (nat \<Rightarrow> pyval) \<Rightarrow> (nat \<Rightarrow> pyval)" where
  "run_job j h =
     (case j of (rdata, qry, a) \<Rightarrow> h(a := snd (add_additional_data_to_record rdata qry (h a))))"

definition run_executor :: "world \<Rightarrow> world" where
  "run_executor w = w\<lparr>heap := foldl (\<lambda>h j. run_job j h) (heap w) (executor w), executor := []\<rparr>"

section \<open>One task\<close>

text \<open>
  \<^verbatim>\<open>retrieve_author_details(self, book_details, qry, semaphore, verbose)\<close>. The semaphore
  argument is the semaphore of the world. \<^verbatim>\<open>with (yield from semaphore)\<close> takes a slot,
  waiting for ever when there is none and none in use, and gives it back on every way out
  of the block. The enrichment is handed to the executor and not waited for.
\<close>

definition retrieve_author_details ::
    "transport \<Rightarrow> nat \<Rightarrow> pyval \<Rightarrow> pyval \<Rightarrow> world \<Rightarrow> Result outcome \<times> world" where
  "retrieve_author_details post book_details qry verbose w =
     (let base_url = AWS_AUTHOR_API in
      case subscript (heap w book_details) ''_source'' of
        Inl e \<Rightarrow> (Raises e, w)
      | Inr src \<Rightarrow>
          (case subscript src ''id'' of
             Inl e \<Rightarrow> (Raises e, w)
           | Inr book_id \<Rightarrow>
               let payload = VDict [(''book_id'', book_id)] in
               (if free_slots w \<le> 0 then (Blocks, w)
               else
                 let w1 = w\<lparr>free_slots := free_slots w - 1\<rparr>;
                     r = call_service post base_url payload ''POST'';
                     w2 = w1\<lparr>free_slots := free_slots w1 + 1\<rparr>
                 in (case r of
                       Inl exc \<Rightarrow>
                         if isinstance exc HTTPNotFound then
                           (Returns (Result not_found book_details), w2)
                         else if isinstance exc PlainException then
                           (Raises (raise_in_handler exc (new_exn PlainException [VExn exc])), w2)
                         else (Raises exc, w2)
                     | Inr rdata \<Rightarrow>
                         (Returns (Result ok book_details),
                          w2\<lparr>executor := executor w2 @ [(rdata, qry, book_details)]\<rparr>)))))"

text \<open>
  The outcome of the task for the record at address \<open>a\<close> of store \<open>h\<close> when it gets a
  semaphore slot, and the jobs it hands to the executor: \<^verbatim>\<open>retrieve_author_details\<close>
  run in a world that has a free slot and an empty executor.
\<close>

definition verdict :: "transport \<Rightarrow> pyval \<Rightarrow> (nat \<Rightarrow> pyval) \<Rightarrow> nat \<Rightarrow> Result outcome" where
  "verdict post qry h a =
     fst (retrieve_author_details post a qry VNone
        \<lparr>heap = h, executor = [], free_slots = 1, events = []\<rparr>)"

definition submitted :: "transport \<Rightarrow> pyval \<Rightarrow> (nat \<Rightarrow> pyval) \<Rightarrow> nat \<Rightarrow> job list" where
  "submitted post qry h a =
     executor (snd (retrieve_author_details post a qry VNone
        \<lparr>heap = h, executor = [], free_slots = 1, events = []\<rparr>))"

section \<open>The scheduler\<close>

text \<open>
  \<^verbatim>\<open>asyncio.as_completed\<close> hands the futures over in the order in which they finish,
  which the program does not control. The order is a parameter: a list of choices, each
  picking the next finished future among those still running (modulo their number; the
  first one when the choices are used up).
\<close>

definition next_done :: "nat list \<Rightarrow> nat \<Rightarrow> nat" where
  "next_done sched n = (case sched of [] \<Rightarrow> 0 | c # cs \<Rightarrow> c mod n)"

function as_completed :: "nat list \<Rightarrow> 'a list \<Rightarrow> 'a list" where
  "as_completed sched [] = []"
| "as_completed sched (x # xs) =
     (let k = next_done sched (Suc (length xs))
      in ((x # xs) ! k) # as_completed (tl sched) (take k (x # xs) @ drop (Suc k) (x # xs)))"
  by pat_completeness auto
termination
proof (relation "measure (\<lambda>(sched, ys). length ys)")
  show "wf (measure (\<lambda>(sched :: nat list, ys :: 'a list). length ys))"
    by simp
next
  fix sched :: "nat list" and x :: 'a and xs :: "'a list" and k :: nat
  assume k: "k = next_done sched (Suc (length xs))"
  have "k < Suc (length xs)"
    unfolding k next_done_def by (simp split: list.splits)
  then show "((tl sched, take k (x # xs) @ drop (Suc k) (x # xs)), (sched, x # xs))
             \<in> measure (\<lambda>(sched, ys). length ys)"
    by (simp add: min_def)
qed

text \<open>
  The diagnostic of lines 108 to 111:
  \<^verbatim>\<open>try: error_msg = exc.__cause__.args[0]\<close>
  \<^verbatim>\<open>except IndexError: error_msg = exc.__cause__.__class__.__name__\<close>.
  Without a cause, \<^verbatim>\<open>None.args\<close> is an \<^verbatim>\<open>AttributeError\<close>, which the handler does not
  take.
\<close>

definition error_msg_of :: "exn \<Rightarrow> exn + pyval" where
  "error_msg_of exc =
     (case exn_cause exc of
        None \<Rightarrow> Inl (new_exn AttributeError [])
      | Some c \<Rightarrow>
          (case exn_args c of
             a # as \<Rightarrow> Inr a
           | [] \<Rightarrow> Inr (VStr (class_name (exn_class c)))))"

type_synonym counter = "HTTPStatus \<Rightarrow> nat"

text \<open>The sum of the three counts of a tally.\<close>

definition total :: "counter \<Rightarrow> nat" where
  "total cnt = cnt ok + cnt not_found + cnt error"

type_synonym task = "world \<Rightarrow> Result outcome \<times> world"

text \<open>
  The loop \<^verbatim>\<open>for future in to_do_iter\<close> of \<^verbatim>\<open>schedule_services\<close>. A future that never
  finishes is never handed over, so the loop then never ends (\<open>stuck\<close>), unless a future
  that does finish raises first. An exception raised inside the \<^verbatim>\<open>except FetchError\<close>
  block has the fetch error as its context. The report of line 114, written only when
  \<^verbatim>\<open>verbose\<close> and the diagnostic are true, is kept as an event.
\<close>

fun consume :: "task list \<Rightarrow> pyval \<Rightarrow> counter \<Rightarrow> bool \<Rightarrow> world \<Rightarrow> counter outcome \<times> world" where
  "consume [] verbose cnt stuck w = (if stuck then Blocks else Returns cnt, w)"
| "consume (future # rest) verbose cnt stuck w =
     (case future w of
        (Blocks, w') \<Rightarrow> consume rest verbose cnt True w'
      | (Returns res, w') \<Rightarrow>
          consume rest verbose (cnt(res_status res := cnt (res_status res) + 1)) stuck w'
      | (Raises exc, w') \<Rightarrow>
          if isinstance exc FetchError then
            (case getattr exc ''id'' of
               Inl e \<Rightarrow> (Raises (raise_in_handler exc e), w')
             | Inr ident \<Rightarrow>
                 (case error_msg_of exc of
                    Inl e \<Rightarrow> (Raises (raise_in_handler exc e), w')
                  | Inr error_msg \<Rightarrow>
                      let w'' = (if truthy verbose \<and> truthy error_msg
                                 then w'\<lparr>events := events w' @ [ErrorReport ident error_msg]\<rparr>
                                 else w')
                      in consume rest verbose (cnt(error := cnt error + 1)) stuck w''))
          else (Raises exc, w'))"

text \<open>
  \<^verbatim>\<open>schedule_services(self, records_list, qry, next_calling_service, verbose, concur_req)\<close>.
  \<^verbatim>\<open>asyncio.Semaphore\<close> refuses a negative value with \<^verbatim>\<open>ValueError\<close>. The counter is a
  \<^verbatim>\<open>collections.Counter\<close>: a key it has not seen counts 0. The two last arguments are
  the model's: the order of completion and the world the batch starts in. Here each task
  runs from start to end when its turn comes; the tasks taking turns step by step are the
  subject of a later section.
\<close>

definition schedule_services ::
    "nat list \<Rightarrow> pyval \<Rightarrow> (nat \<Rightarrow> pyval \<Rightarrow> pyval \<Rightarrow> task) \<Rightarrow> pyval \<Rightarrow> int \<Rightarrow> nat list \<Rightarrow> world
     \<Rightarrow> counter outcome \<times> world" where
  "schedule_services records_list qry next_calling_service verbose concur_req sched w =
     (let cnt = (\<lambda>s. 0) in
      if concur_req < 0 then (Raises (new_exn ValueError []), w)
      else
        let w1 = w\<lparr>free_slots := concur_req,
                   events := events w @ [SemaphoreCreated concur_req]\<rparr>;
            to_do = map (\<lambda>item_details. next_calling_service item_details qry verbose) records_list;
            to_do_iter = as_completed sched to_do;
            w2 = (if \<not> truthy verbose
                  then w1\<lparr>events := events w1 @ [ProgressBar (length records_list)]\<rparr>
                  else w1)
        in consume to_do_iter verbose cnt False w2)"

text \<open>
  \<^verbatim>\<open>call_author_many(self, records_list, qry, verbose, concur_req)\<close>: a new event loop
  runs the scheduler to its end; the counter is dropped.
\<close>

definition call_author_many ::
    "transport \<Rightarrow> nat list \<Rightarrow> pyval \<Rightarrow> pyval \<Rightarrow> int \<Rightarrow> nat list \<Rightarrow> world \<Rightarrow> unit outcome \<times> world" where
  "call_author_many post records_list qry verbose concur_req sched w =
     (case schedule_services records_list qry (retrieve_author_details post) verbose concur_req sched w of
        (Returns cnt, w') \<Rightarrow> (Returns (), w')
      | (Raises e, w') \<Rightarrow> (Raises e, w')
      | (Blocks, w') \<Rightarrow> (Blocks, w'))"

section \<open>The batch runner\<close>

text \<open>
  The search backend, an external collaborator: for a query term and a size, the hits
  \<^verbatim>\<open>response.to_dict()['hits']['hits']\<close> of the executed search, or the exception of a
  search that fails. \<^verbatim>\<open>to_dict\<close> gives the dictionary the response holds, so the list
  appended to the result is the list of record objects the batch worked on.
\<close>

type_synonym provider = "pyval \<Rightarrow> pyval \<Rightarrow> exn + pyval list"

record ElasticSearchBookService =
  query_list :: "pyval list"
  size_limit :: pyval
  search_instance :: provider

text \<open>
  The hits of one response are fresh objects, and each call of \<^verbatim>\<open>call_author_many\<close> has
  its own loop, executor and semaphore: each batch starts in a world of its own, its
  records at the addresses \<open>0 ..< n\<close>.
\<close>

definition fresh_world :: "pyval list \<Rightarrow> world" where
  "fresh_world list_doc =
     \<lparr>heap = (\<lambda>a. if a < length list_doc then list_doc ! a else VNone),
      executor = [], free_slots = 0, events = []\<rparr>"

text \<open>
  The contents of the record list once the executor has run the jobs it was given: what
  the caller finds in the list it received.
\<close>

definition settled :: "world \<Rightarrow> nat list \<Rightarrow> pyval list" where
  "settled w records_list = map (heap (run_executor w)) records_list"

text \<open>
  The loop of \<^verbatim>\<open>run_query_list\<close>; \<open>k\<close> counts the batches and selects the completion
  order of each. The result comes with the trace of all batches.
\<close>

fun run_queries ::
    "provider \<Rightarrow> pyval \<Rightarrow> transport \<Rightarrow> (nat \<Rightarrow> nat list) \<Rightarrow> nat \<Rightarrow> pyval list \<Rightarrow> pyval list list
     \<Rightarrow> event list \<Rightarrow> pyval list list outcome \<times> event list" where
  "run_queries search sz post sched k [] result evs = (Returns result, evs)"
| "run_queries search sz post sched k (qry # rest) result evs =
     (case search qry sz of
        Inl e \<Rightarrow> (Raises e, evs)
      | Inr list_doc \<Rightarrow>
          let records_list = [0 ..< length list_doc] in
          (case call_author_many post records_list qry (VInt DEFAULT_CONCUR_REQ) MAX_CONCUR_REQ
                  (sched k) (fresh_world list_doc) of
             (Returns u, w') \<Rightarrow>
               run_queries search sz post sched (Suc k) rest
                 (result @ [settled w' records_list]) (evs @ events w')
           | (Raises e, w') \<Rightarrow> (Raises e, evs @ events w')
           | (Blocks, w') \<Rightarrow> (Blocks, evs @ events w')))"

definition run_query_list ::
    "ElasticSearchBookService \<Rightarrow> transport \<Rightarrow> (nat \<Rightarrow> nat list) \<Rightarrow> pyval list list outcome \<times> event list" where
  "run_query_list self post sched =
     run_queries (search_instance self) (size_limit self) post sched 0 (query_list self) [] []"

section \<open>Tasks side by side\<close>

text \<open>
  The event loop runs the tasks of a batch interleaved: a task runs until it waits, for a
  semaphore slot or for the remote side, and then another task runs. A task of
  \<^verbatim>\<open>retrieve_author_details\<close> waits at two places only, so it is in one of four
  phases: created and not yet run; waiting at \<^verbatim>\<open>yield from semaphore\<close>, its payload
  built; inside the \<^verbatim>\<open>with\<close> block, holding a slot, its remote call in flight;
  finished.
\<close>

datatype phase = Created | Waiting pyval | InFlight pyval | Finished "Result outcome"

text \<open>Lines 69 to 71: up to the \<^verbatim>\<open>with\<close> statement.\<close>

definition begin_task :: "nat \<Rightarrow> world \<Rightarrow> phase" where
  "begin_task book_details w =
     (case subscript (heap w book_details) ''_source'' of
        Inl e \<Rightarrow> Finished (Raises e)
      | Inr src \<Rightarrow>
          (case subscript src ''id'' of
             Inl e \<Rightarrow> Finished (Raises e)
           | Inr book_id \<Rightarrow> Waiting (VDict [(''book_id'', book_id)])))"

text \<open>
  Lines 75 to 88, with a slot held: the remote call ends, the \<^verbatim>\<open>with\<close> block is left and
  gives the slot back, and the rest of the function runs without waiting again.
\<close>

definition leave_block :: "transport \<Rightarrow> nat \<Rightarrow> pyval \<Rightarrow> pyval \<Rightarrow> world \<Rightarrow> Result outcome \<times> world" where
  "leave_block post book_details qry payload w1 =
     (let r = call_service post AWS_AUTHOR_API payload ''POST'';
          w2 = w1\<lparr>free_slots := free_slots w1 + 1\<rparr>
      in (case r of
            Inl exc \<Rightarrow>
              if isinstance exc HTTPNotFound then
                (Returns (Result not_found book_details), w2)
              else if isinstance exc PlainException then
                (Raises (raise_in_handler exc (new_exn PlainException [VExn exc])), w2)
              else (Raises exc, w2)
          | Inr rdata \<Rightarrow>
              (Returns (Result ok book_details),
               w2\<lparr>executor := executor w2 @ [(rdata, qry, book_details)]\<rparr>)))"

text \<open>The tasks of a batch, each with the address of its record, and the world they share.\<close>

record pool =
  pool_tasks :: "(nat \<times> phase) list"
  pool_world :: world

text \<open>
  One step of task \<open>i\<close>. \<^verbatim>\<open>asyncio.Semaphore\<close> lets a task pass and takes one from
  its value when the value is positive, and makes it wait otherwise; a step of a task that
  has to wait, or that has finished, changes nothing.
\<close>

definition step_task :: "transport \<Rightarrow> pyval \<Rightarrow> nat \<Rightarrow> pool \<Rightarrow> pool" where
  "step_task post qry i s =
     (if length (pool_tasks s) \<le> i then s
      else
        (case pool_tasks s ! i of
           (a, Created) \<Rightarrow> s\<lparr>pool_tasks := (pool_tasks s)[i := (a, begin_task a (pool_world s))]\<rparr>
         | (a, Waiting payload) \<Rightarrow>
             if 0 < free_slots (pool_world s) then
               s\<lparr>pool_tasks := (pool_tasks s)[i := (a, InFlight payload)],
                 pool_world := (pool_world s)\<lparr>free_slots := free_slots (pool_world s) - 1\<rparr>\<rparr>
             else s
         | (a, InFlight payload) \<Rightarrow>
             (case leave_block post a qry payload (pool_world s) of
                (r, w') \<Rightarrow> s\<lparr>pool_tasks := (pool_tasks s)[i := (a, Finished r)], pool_world := w'\<rparr>)
         | (a, Finished r) \<Rightarrow> s))"

text \<open>A run of the batch: the list says which task takes the next step.\<close>

definition run_pool :: "transport \<Rightarrow> pyval \<Rightarrow> nat list \<Rightarrow> pool \<Rightarrow> pool" where
  "run_pool post qry sched s = foldl (\<lambda>s i. step_task post qry i s) s sched"

definition start_pool :: "nat list \<Rightarrow> int \<Rightarrow> world \<Rightarrow> pool" where
  "start_pool records_list concur_req w =
     \<lparr>pool_tasks = map (\<lambda>a. (a, Created)) records_list,
      pool_world = w\<lparr>free_slots := concur_req\<rparr>\<rparr>"

fun holds_slot :: "nat \<times> phase \<Rightarrow> bool" where
  "holds_slot (a, InFlight payload) = True"
| "holds_slot (a, ph) = False"

definition in_flight :: "pool \<Rightarrow> nat" where
  "in_flight s = length (filter holds_slot (pool_tasks s))"

section \<open>Concrete inputs\<close>

text \<open>Two hits as the search backend returns them, and some remote sides.\<close>

definition book_a :: pyval where
  "book_a = VDict [(''_id'', VStr ''a1''),
     (''_source'', VDict [(''id'', VInt 1), (''summary'', VStr ''a mystery'')])]"

definition book_b :: pyval where
  "book_b = VDict [(''_id'', VStr ''b2''),
     (''_source'', VDict [(''id'', VInt 2), (''summary'', VStr ''a romance'')])]"

definition connection_refused :: exn where
  "connection_refused =
     Exn ClientConnectorError [VInt 111, VStr ''Connection refused'']
       [(''errno'', VInt 111), (''strerror'', VStr ''Connection refused'')] None None"

definition refusing_transport :: transport where
  "refusing_transport url payload = Inl connection_refused"

definition answering_transport :: transport where
  "answering_transport url payload =
     Inr \<lparr>status = 200, reason = VStr ''OK'', headers = VDict [],
          json = Inr (VDict [(''author'', VStr ''Ann'')])\<rparr>"

definition missing_page :: response where
  "missing_page = \<lparr>status = 404, reason = VStr ''Not Found'',
     headers = VDict [(''Content-Type'', VStr ''application/json'')],
     json = Inr (VDict [(''author'', VStr ''Ann'')])\<rparr>"

definition missing_page_transport :: transport where
  "missing_page_transport url payload = Inr missing_page"

definition authorless_transport :: transport where
  "authorless_transport url payload =
     Inr \<lparr>status = 200, reason = VStr ''OK'', headers = VDict [],
          json = Inr (VDict [(''errorMessage'', VStr ''no such book'')])\<rparr>"

text \<open>
  Two task functions that raise \<^verbatim>\<open>FetchError(id, 'boom')\<close>: the first with a bare
  \<^verbatim>\<open>raise\<close>, the second with \<^verbatim>\<open>raise ... from KeyError()\<close>.
\<close>

definition uncaused_fetch_error :: "nat \<Rightarrow> pyval \<Rightarrow> pyval \<Rightarrow> task" where
  "uncaused_fetch_error item_details qry verbose w =
     (Raises (FetchError_init (VInt (int item_details)) (VStr ''boom'') None), w)"

definition caused_fetch_error :: "nat \<Rightarrow> pyval \<Rightarrow> pyval \<Rightarrow> task" where
  "caused_fetch_error item_details qry verbose w =
     (Raises (FetchError_init (VInt (int item_details)) (VStr ''boom'')
                (Some (new_exn KeyError []))), w)"

text \<open>A search backend with two hits for every term, and a service with two terms.\<close>

definition two_hits :: provider where
  "two_hits qry sz = Inr [book_a, book_b]"

definition submission_order :: "nat \<Rightarrow> nat list" where
  "submission_order k = []"

definition mystery_romance :: ElasticSearchBookService where
  "mystery_romance = \<lparr>query_list = [VStr ''mystery'', VStr ''romance''], size_limit = VInt 10,
     search_instance = two_hits\<rparr>"

section \<open>The remote call: failures\<close>

text \<open>
  Claim C6 against the code: a response whose status is not 200 makes \<^verbatim>\<open>call_service\<close>
  raise, and the body plays no part, whatever \<^verbatim>\<open>response.json()\<close> would give. But the
  exception is not the response error the claim speaks of: line 61 calls
  \<^verbatim>\<open>aiohttp.ClientResponseError\<close> without its two required positional arguments, so
  the constructor call itself raises \<^verbatim>\<open>TypeError\<close>, which is not a
  \<^verbatim>\<open>ClientResponseError\<close> and has no \<^verbatim>\<open>code\<close>, \<^verbatim>\<open>message\<close> or \<^verbatim>\<open>headers\<close>.
\<close>

theorem call_service_non_200:
  assumes "post base_url payload = Inr resp" and "status resp \<noteq> 200"
  shows "call_service post base_url payload ''POST'' = Inl (new_exn TypeError [])
       \<and> isinstance (new_exn TypeError []) ClientResponseError = False
       \<and> getattr (new_exn TypeError []) ''code'' = Inl (new_exn AttributeError [])
       \<and> getattr (new_exn TypeError []) ''message'' = Inl (new_exn AttributeError [])
       \<and> getattr (new_exn TypeError []) ''headers'' = Inl (new_exn AttributeError [])
       \<and> (\<forall>body. call_service (\<lambda>u p. Inr (resp\<lparr>json := body\<rparr>)) base_url payload ''POST''
              = Inl (new_exn TypeError []))"
  using assms
  by (simp add: call_service_def post_stage_def ClientResponseError_init_def getattr_def
      isinstance_def new_exn_def)

theorem call_service_non_200_witness:
  "missing_page_transport AWS_AUTHOR_API (VDict [(''book_id'', VInt 7)]) = Inr missing_page
   \<and> status missing_page = 404
   \<and> call_service missing_page_transport AWS_AUTHOR_API (VDict [(''book_id'', VInt 7)]) ''POST''
       = Inl (Exn TypeError [] [] None None)"
  using call_service_non_200
    [of missing_page_transport AWS_AUTHOR_API "VDict [(''book_id'', VInt 7)]" missing_page]
  by (simp add: missing_page_transport_def missing_page_def new_exn_def)

text \<open>
  Claim C5, as stated, fails: when the transport raises a connector error, the handler of
  \<^verbatim>\<open>call_service\<close> raises a plain \<^verbatim>\<open>Exception\<close> built from a message string. The
  error that comes out is not an instance of the connection error class, and nothing is
  set as its cause.
\<close>

theorem call_service_connection_failure_counterexample:
  "call_service refusing_transport AWS_AUTHOR_API (VDict [(''book_id'', VInt 7)]) ''POST''
     = Inl (Exn PlainException [VStr ''call author aws service: Connection refused''] [] None
             (Some connection_refused))
   \<and> isinstance (Exn PlainException [VStr ''call author aws service: Connection refused''] []
         None (Some connection_refused)) ClientConnectorError = False
   \<and> exn_cause (Exn PlainException [VStr ''call author aws service: Connection refused''] []
         None (Some connection_refused)) = None"
  by (simp add: call_service_def post_stage_def refusing_transport_def connection_refused_def
      isinstance_def strerror_def raise_in_handler_def new_exn_def)

text \<open>
  Claim C5, amended. When the transport raises a connector error whose \<^verbatim>\<open>strerror\<close> is
  a string, \<^verbatim>\<open>call_service\<close> fails with a plain \<^verbatim>\<open>Exception\<close> whose only argument is
  the text \<^verbatim>\<open>call author aws service: \<close> followed by that string. The connector error is
  kept as the implicit context of the new exception only; no cause is set.
\<close>

theorem call_service_connection_failure:
  assumes "post base_url payload = Inl ce"
    and "isinstance ce ClientConnectorError"
    and "strerror ce = VStr s"
  shows "call_service post base_url payload ''POST''
           = Inl (Exn PlainException [VStr (''call author aws service: '' @ s)] [] None (Some ce))"
  using assms
  by (simp add: call_service_def post_stage_def raise_in_handler_def new_exn_def)

theorem call_service_connection_failure_witness:
  "refusing_transport AWS_AUTHOR_API VNone = Inl connection_refused
   \<and> isinstance connection_refused ClientConnectorError
   \<and> strerror connection_refused = VStr ''Connection refused''
   \<and> call_service refusing_transport AWS_AUTHOR_API VNone ''POST''
       = Inl (Exn PlainException [VStr ''call author aws service: Connection refused''] [] None
               (Some connection_refused))"
proof -
  have h1: "refusing_transport AWS_AUTHOR_API VNone = Inl connection_refused"
    by (simp add: refusing_transport_def)
  have h2: "isinstance connection_refused ClientConnectorError"
    by (simp add: isinstance_def connection_refused_def)
  have h3: "strerror connection_refused = VStr ''Connection refused''"
    by (simp add: strerror_def connection_refused_def)
  from call_service_connection_failure
         [of refusing_transport AWS_AUTHOR_API VNone connection_refused "''Connection refused''"]
       h1 h2 h3
  show ?thesis
    by simp
qed

section \<open>Enrichment: what it writes\<close>

lemma store_source_Inr:
  assumes "store_source bd k v = (Inr u, bd')"
  shows "\<exists>kvs src. bd = VDict kvs \<and> map_of kvs ''_source'' = Some (VDict src)
           \<and> bd' = VDict (AList.update ''_source'' (VDict (AList.update k v src)) kvs)"
proof (cases bd)
  case (VDict kvs)
  show ?thesis
  proof (cases "map_of kvs ''_source''")
    case None
    with VDict assms show ?thesis by (simp add: store_source_def)
  next
    case (Some src)
    with VDict assms show ?thesis
      by (cases src) (auto simp: store_source_def)
  qed
qed (use assms in \<open>simp_all add: store_source_def\<close>)

lemma store_source_Inl:
  assumes "store_source bd k v = (Inl e, bd')"
  shows "bd' = bd"
  using assms by (auto simp: store_source_def split: sum.splits)

lemma store_source_dict:
  assumes "bd = VDict kvs" and "map_of kvs ''_source'' = Some (VDict src)"
  shows "store_source bd k v
           = (Inr (), VDict (AList.update ''_source'' (VDict (AList.update k v src)) kvs))"
  using assms by (simp add: store_source_def)

text \<open>
  Claim C8. When the enrichment step completes, the record is the record it was given
  with \<^verbatim>\<open>_source.author\<close> set to the \<^verbatim>\<open>author\<close> of the remote data and
  \<^verbatim>\<open>_source.query\<close> set to the query term: the two keys are updated in the nested
  dictionary, the nested dictionary is put back under \<^verbatim>\<open>_source\<close>, and every other
  entry of either dictionary is where and what it was. When the step raises, the record
  is untouched.
\<close>

theorem add_additional_data_to_record_frame:
  assumes "add_additional_data_to_record rdata qry book_details = (r, bd')"
  shows "(\<forall>e. r = Inl e \<longrightarrow> bd' = book_details)
       \<and> (r = Inr () \<longrightarrow>
            (\<exists>kvs src author.
               book_details = VDict kvs \<and> map_of kvs ''_source'' = Some (VDict src)
             \<and> subscript rdata ''author'' = Inr author
             \<and> bd' = VDict (AList.update ''_source''
                        (VDict (AList.update ''query'' qry (AList.update ''author'' author src)))
                        kvs)))"
proof (cases "subscript rdata ''author''")
  case (Inl e)
  with assms show ?thesis by (auto simp: add_additional_data_to_record_def)
next
  case (Inr author)
  obtain r1 bd1 where s1: "store_source book_details ''author'' author = (r1, bd1)"
    by (cases "store_source book_details ''author'' author")
  show ?thesis
  proof (cases r1)
    case (Inl e)
    with assms Inr s1 store_source_Inl [of book_details "''author''" author e bd1]
    show ?thesis by (auto simp: add_additional_data_to_record_def)
  next
    case r1: (Inr u)
    from s1 r1 obtain kvs src where
      bd: "book_details = VDict kvs" and src: "map_of kvs ''_source'' = Some (VDict src)"
      and bd1: "bd1 = VDict (AList.update ''_source'' (VDict (AList.update ''author'' author src)) kvs)"
      using store_source_Inr by blast
    have "map_of (AList.update ''_source'' (VDict (AList.update ''author'' author src)) kvs)
            ''_source'' = Some (VDict (AList.update ''author'' author src))"
      by (simp add: update_conv')
    from store_source_dict [OF bd1 this, of "''query''" qry]
    have "store_source bd1 ''query'' qry =
            (Inr (), VDict (AList.update ''_source''
               (VDict (AList.update ''query'' qry (AList.update ''author'' author src))) kvs))"
      by simp
    with assms Inr s1 r1 bd src show ?thesis
      by (auto simp: add_additional_data_to_record_def)
  qed
qed

theorem add_additional_data_to_record_frame_witness:
  "add_additional_data_to_record (VDict [(''author'', VStr ''Ann'')]) (VStr ''mystery'') book_a =
     (Inr (), VDict [(''_id'', VStr ''a1''),
        (''_source'', VDict [(''id'', VInt 1), (''summary'', VStr ''a mystery''),
                            (''author'', VStr ''Ann''), (''query'', VStr ''mystery'')])])"
  using add_additional_data_to_record_frame
    [of "VDict [(''author'', VStr ''Ann'')]" "VStr ''mystery''" book_a "Inr ()"
        "snd (add_additional_data_to_record (VDict [(''author'', VStr ''Ann'')])
               (VStr ''mystery'') book_a)"]
  by (simp add: add_additional_data_to_record_def store_source_def book_a_def)

section \<open>The scheduler: the tally\<close>

lemma length_as_completed: "length (as_completed sched xs) = length xs"
proof (induction sched xs rule: as_completed.induct)
  case (1 sched)
  show ?case by simp
next
  case (2 sched x xs)
  define k where "k = next_done sched (Suc (length xs))"
  have "k < Suc (length xs)"
    unfolding k_def next_done_def by (simp split: list.splits)
  moreover have "length (as_completed (tl sched) (take k (x # xs) @ drop (Suc k) (x # xs)))
        = length (take k (x # xs) @ drop (Suc k) (x # xs))"
    using "2.IH" [of k] by (simp add: k_def)
  ultimately show ?case
    by (simp add: Let_def k_def [symmetric] min_def)
qed

lemma total_bump: "total (cnt(s := cnt s + 1)) = Suc (total cnt)"
  by (cases s) (simp_all add: total_def)

text \<open>Once a future is known never to finish, the loop does not return.\<close>

lemma consume_stuck:
  "consume tasks verbose cnt True w = (r, w') \<Longrightarrow> r \<noteq> Returns cnt'"
proof (induction tasks arbitrary: cnt w)
  case Nil
  then show ?case by auto
next
  case (Cons future rest)
  obtain r1 w1 where fw: "future w = (r1, w1)" by (cases "future w")
  show ?case
  proof (cases r1)
    case (Returns res)
    with Cons.prems fw Cons.IH show ?thesis by simp
  next
    case (Raises exc)
    with Cons.prems fw Cons.IH show ?thesis
      by (auto simp: Let_def split: if_splits sum.splits)
  next
    case Blocks
    with Cons.prems fw Cons.IH show ?thesis by simp
  qed
qed

text \<open>Each future the loop gets through adds one to exactly one count.\<close>

lemma consume_total:
  "consume tasks verbose cnt stuck w = (Returns cnt', w')
   \<Longrightarrow> total cnt' = total cnt + length tasks"
proof (induction tasks arbitrary: cnt stuck w)
  case Nil
  then show ?case by (simp split: if_splits)
next
  case (Cons future rest)
  obtain r w1 where fw: "future w = (r, w1)" by (cases "future w")
  show ?case
  proof (cases r)
    case (Returns res)
    with Cons.prems fw
    have "consume rest verbose (cnt(res_status res := cnt (res_status res) + 1)) stuck w1
            = (Returns cnt', w')"
      by simp
    from Cons.IH [OF this] show ?thesis unfolding total_bump by simp
  next
    case (Raises exc)
    with Cons.prems fw obtain w2 where
      "consume rest verbose (cnt(error := cnt error + 1)) stuck w2 = (Returns cnt', w')"
      by (auto simp: Let_def split: if_splits sum.splits)
    from Cons.IH [OF this] show ?thesis unfolding total_bump by simp
  next
    case Blocks
    with Cons.prems fw have "consume rest verbose cnt True w1 = (Returns cnt', w')"
      by simp
    with consume_stuck show ?thesis by blast
  qed
qed

text \<open>
  Claim C2. Whatever the records, the query term, the task function, the verbosity, the
  concurrency limit and the completion order: the tally that \<^verbatim>\<open>schedule_services\<close>
  returns has counts for \<^verbatim>\<open>ok\<close>, \<^verbatim>\<open>not_found\<close> and \<^verbatim>\<open>error\<close> that add up to the
  number of records it was given.
\<close>

theorem schedule_services_tally_total:
  assumes "schedule_services records_list qry next_calling_service verbose concur_req sched w
             = (Returns cnt, w')"
  shows "cnt ok + cnt not_found + cnt error = length records_list"
proof -
  from assms obtain w2 where
    "consume (as_completed sched
        (map (\<lambda>item_details. next_calling_service item_details qry verbose) records_list))
       verbose (\<lambda>s. 0) False w2 = (Returns cnt, w')"
    by (auto simp: schedule_services_def Let_def split: if_splits)
  from consume_total [OF this] show ?thesis
    by (simp add: total_def length_as_completed)
qed

theorem schedule_services_tally_total_witness:
  "\<exists>cnt w'. schedule_services [0, 1] (VStr ''mystery'')
       (retrieve_author_details answering_transport) (VInt 5) 2 [1] (fresh_world [book_a, book_b])
       = (Returns cnt, w')
     \<and> cnt ok + cnt not_found + cnt error = length [0::nat, 1]"
proof -
  obtain r w' where run: "schedule_services [0, 1] (VStr ''mystery'')
       (retrieve_author_details answering_transport) (VInt 5) 2 [1] (fresh_world [book_a, book_b])
       = (r, w')"
    by (cases "schedule_services [0, 1] (VStr ''mystery'')
       (retrieve_author_details answering_transport) (VInt 5) 2 [1] (fresh_world [book_a, book_b])")
  then have "\<exists>cnt. r = Returns cnt"
    by (auto simp: schedule_services_def Let_def retrieve_author_details_def fresh_world_def
        book_a_def book_b_def answering_transport_def call_service_def post_stage_def
        next_done_def)
  then obtain cnt where "r = Returns cnt" ..
  with run schedule_services_tally_total [of "[0, 1]" _ _ _ _ _ _ cnt w'] show ?thesis
    by auto
qed

section \<open>The batch: which records are enriched\<close>

lemma retrieve_author_details_run:
  assumes "0 < free_slots w"
  shows "retrieve_author_details post a qry verbose w
           = (verdict post qry (heap w) a, w\<lparr>executor := executor w @ submitted post qry (heap w) a\<rparr>)"
  using assms
  by (auto simp: retrieve_author_details_def verdict_def submitted_def Let_def
      split: sum.splits)

lemma subscript_error_class:
  "subscript v k = Inl e \<Longrightarrow> exn_class e = KeyError \<or> exn_class e = TypeError"
  by (cases v) (auto simp: new_exn_def split: option.splits)

lemma retrieve_author_details_no_FetchError:
  assumes "retrieve_author_details post a qry verbose w = (Raises e, w')"
  shows "\<not> isinstance e FetchError"
proof (cases "subscript (heap w a) ''_source''")
  case (Inl e1)
  with assms subscript_error_class [OF Inl] show ?thesis
    by (auto simp: retrieve_author_details_def isinstance_def)
next
  case src: (Inr src)
  show ?thesis
  proof (cases "subscript src ''id''")
    case (Inl e1)
    with assms src subscript_error_class [OF Inl] show ?thesis
      by (auto simp: retrieve_author_details_def isinstance_def)
  next
    case (Inr book_id)
    with assms src show ?thesis
      by (cases "exn_class e")
         (auto simp: retrieve_author_details_def Let_def isinstance_def raise_in_handler_def
               new_exn_def split: if_splits sum.splits)
  qed
qed

lemma retrieve_author_details_blocked:
  assumes "free_slots w \<le> 0" and "retrieve_author_details post a qry verbose w = (r, w')"
  shows "w' = w \<and> (\<forall>res. r \<noteq> Returns res)"
  using assms
  by (auto simp: retrieve_author_details_def Let_def split: sum.splits)

text \<open>
  The loop over tasks of \<^verbatim>\<open>retrieve_author_details\<close>: when it returns, every task has
  returned, the store is as it was and the executor holds the jobs of the tasks in the order
  in which they finished.
\<close>

lemma consume_retrieve:
  assumes "consume (map (\<lambda>a. retrieve_author_details post a qry verbose) as) verbose cnt stuck w
             = (Returns cnt', w')"
  shows "w' = w\<lparr>executor := executor w @ concat (map (submitted post qry (heap w)) as)\<rparr>
       \<and> (\<forall>a \<in> set as. \<exists>res. verdict post qry (heap w) a = Returns res)"
  using assms
proof (induction as arbitrary: cnt stuck w)
  case Nil
  then show ?case by (simp split: if_splits)
next
  case (Cons a as)
  obtain r w1 where fw: "retrieve_author_details post a qry verbose w = (r, w1)"
    by (cases "retrieve_author_details post a qry verbose w")
  show ?case
  proof (cases r)
    case (Returns res)
    with retrieve_author_details_blocked [OF _ fw] have slots: "0 < free_slots w"
      by fastforce
    from retrieve_author_details_run [OF slots, of post a qry verbose] fw Returns
    have v: "verdict post qry (heap w) a = Returns res"
      and w1: "w1 = w\<lparr>executor := executor w @ submitted post qry (heap w) a\<rparr>"
      by simp_all
    from Cons.prems fw Returns
    have "consume (map (\<lambda>a. retrieve_author_details post a qry verbose) as) verbose
            (cnt(res_status res := cnt (res_status res) + 1)) stuck w1 = (Returns cnt', w')"
      by simp
    from Cons.IH [OF this] v w1 show ?thesis by simp
  next
    case (Raises e)
    with fw retrieve_author_details_no_FetchError have "\<not> isinstance e FetchError"
      by blast
    with Cons.prems fw Raises show ?thesis by simp
  next
    case Blocks
    with Cons.prems fw
    have "consume (map (\<lambda>a. retrieve_author_details post a qry verbose) as) verbose cnt True w1
            = (Returns cnt', w')"
      by simp
    with consume_stuck show ?thesis by blast
  qed
qed


lemma as_completed_map: "as_completed sched (map f xs) = map f (as_completed sched xs)"
proof (induction sched xs rule: as_completed.induct)
  case (1 sched)
  show ?case by simp
next
  case (2 sched x xs)
  define k where "k = next_done sched (Suc (length xs))"
  have k: "k < Suc (length xs)"
    unfolding k_def next_done_def by (simp split: list.splits)
  have IH: "as_completed (tl sched) (map f (take k (x # xs) @ drop (Suc k) (x # xs)))
              = map f (as_completed (tl sched) (take k (x # xs) @ drop (Suc k) (x # xs)))"
    using "2.IH" [of k] by (simp add: k_def)
  have nth: "(map f (x # xs)) ! k = f ((x # xs) ! k)"
    using k by (intro nth_map) simp
  have "as_completed sched (map f (x # xs))
          = (map f (x # xs)) ! k
            # as_completed (tl sched) (take k (map f (x # xs)) @ drop (Suc k) (map f (x # xs)))"
    by (simp add: Let_def k_def)
  also have "\<dots> = f ((x # xs) ! k)
            # as_completed (tl sched) (map f (take k (x # xs) @ drop (Suc k) (x # xs)))"
    unfolding nth by (simp only: map_append take_map drop_map)
  also have "\<dots> = map f (as_completed sched (x # xs))"
    unfolding IH by (simp add: Let_def k_def)
  finally show ?case .
qed

lemma set_distinct_as_completed:
  "set (as_completed sched xs) = set xs \<and> (distinct (as_completed sched xs) = distinct xs)"
proof (induction sched xs rule: as_completed.induct)
  case (1 sched)
  show ?case by simp
next
  case (2 sched x xs)
  define k where "k = next_done sched (Suc (length xs))"
  define ys where "ys = x # xs"
  define rest where "rest = take k ys @ drop (Suc k) ys"
  have k: "k < length ys"
    unfolding k_def ys_def next_done_def by (simp split: list.splits)
  have IH: "set (as_completed (tl sched) rest) = set rest"
           "distinct (as_completed (tl sched) rest) = distinct rest"
    using "2.IH" [of k] by (simp_all add: k_def ys_def rest_def)
  have split: "ys = take k ys @ ys ! k # drop (Suc k) ys"
    using k by (simp add: id_take_nth_drop)
  have s: "set ys = insert (ys ! k) (set rest)"
    by (subst split) (simp add: rest_def)
  have d: "distinct ys = (ys ! k \<notin> set rest \<and> distinct rest)"
    by (subst split) (auto simp: rest_def)
  have unfold: "as_completed sched ys = ys ! k # as_completed (tl sched) rest"
    by (simp add: Let_def k_def ys_def rest_def)
  show ?case
    unfolding ys_def [symmetric] unfold using IH s d by simp
qed

lemma executor_settles:
  "foldl (\<lambda>h j. run_job j h) h js a
     = foldl (\<lambda>v j. snd (add_additional_data_to_record (fst j) (fst (snd j)) v)) (h a)
         (filter (\<lambda>j. snd (snd j) = a) js)"
proof (induction js arbitrary: h)
  case Nil
  show ?case by simp
next
  case (Cons j js)
  obtain rdata qry b where j: "j = (rdata, qry, b)" by (cases j)
  show ?case
    unfolding foldl_Cons Cons.IH by (simp add: j run_job_def)
qed

lemma submitted_address: "j \<in> set (submitted post qry h a) \<Longrightarrow> snd (snd j) = a"
  by (auto simp: submitted_def retrieve_author_details_def Let_def split: sum.splits if_splits)

lemma filter_submitted:
  assumes "distinct as"
  shows "filter (\<lambda>j. snd (snd j) = a) (concat (map (submitted post qry h) as))
           = (if a \<in> set as then submitted post qry h a else [])"
  using assms
proof (induction as)
  case Nil
  show ?case by simp
next
  case (Cons b as)
  have own: "filter (\<lambda>j. snd (snd j) = a) (submitted post qry h b)
               = (if a = b then submitted post qry h b else [])"
    using submitted_address [of _ post qry h b]
    by (auto simp: filter_empty_conv intro: filter_True)
  from Cons show ?case
    by (auto simp: own)
qed


lemma schedule_services_retrieve:
  assumes "schedule_services as qry (retrieve_author_details post) verbose concur_req sched w
             = (Returns cnt, w')"
  shows "heap w' = heap w"
    and "executor w' = executor w @ concat (map (submitted post qry (heap w)) (as_completed sched as))"
    and "\<forall>a \<in> set as. \<exists>res. verdict post qry (heap w) a = Returns res"
proof -
  define w2 where "w2 = (let w1 = w\<lparr>free_slots := concur_req,
                   events := events w @ [SemaphoreCreated concur_req]\<rparr> in
            if \<not> truthy verbose
                  then w1\<lparr>events := events w1 @ [ProgressBar (length as)]\<rparr>
                  else w1)"
  have w2: "heap w2 = heap w" "executor w2 = executor w"
    by (simp_all add: w2_def Let_def)
  from assms have "consume (as_completed sched (map (\<lambda>a. retrieve_author_details post a qry verbose) as))
       verbose (\<lambda>s. 0) False w2 = (Returns cnt, w')"
    by (simp add: schedule_services_def Let_def w2_def split: if_splits)
  then have "consume (map (\<lambda>a. retrieve_author_details post a qry verbose) (as_completed sched as))
       verbose (\<lambda>s. 0) False w2 = (Returns cnt, w')"
    by (simp only: as_completed_map)
  from consume_retrieve [OF this] w2
  have "w' = w2\<lparr>executor := executor w @ concat (map (submitted post qry (heap w)) (as_completed sched as))\<rparr>"
    and v: "\<forall>a \<in> set (as_completed sched as). \<exists>res. verdict post qry (heap w) a = Returns res"
    by simp_all
  then show "heap w' = heap w"
    and "executor w' = executor w @ concat (map (submitted post qry (heap w)) (as_completed sched as))"
    using w2 by simp_all
  from v show "\<forall>a \<in> set as. \<exists>res. verdict post qry (heap w) a = Returns res"
    using set_distinct_as_completed [of sched as] by simp
qed

lemma batch_settles:
  assumes run: "call_author_many post as qry verbose concur_req sched w = (Returns u, w')"
    and dist: "distinct as" and empty: "executor w = []"
  shows "heap (run_executor w') a
           = foldl (\<lambda>v j. snd (add_additional_data_to_record (fst j) (fst (snd j)) v)) (heap w a)
               (if a \<in> set as then submitted post qry (heap w) a else [])"
proof -
  from run obtain cnt where
    "schedule_services as qry (retrieve_author_details post) verbose concur_req sched w
       = (Returns cnt, w')"
    by (auto simp: call_author_many_def split: prod.splits outcome.splits)
  from schedule_services_retrieve(1,2) [OF this] empty
  have h: "heap w' = heap w"
    and e: "executor w' = concat (map (submitted post qry (heap w)) (as_completed sched as))"
    by simp_all
  have d: "distinct (as_completed sched as)" and s: "set (as_completed sched as) = set as"
    using set_distinct_as_completed [of sched as] dist by simp_all
  show ?thesis
    unfolding run_executor_def
    by (simp add: executor_settles h e filter_submitted [OF d] s)
qed

lemma batch_verdicts:
  assumes run: "call_author_many post as qry verbose concur_req sched w = (Returns u, w')"
    and "a \<in> set as"
  shows "\<exists>res. verdict post qry (heap w) a = Returns res"
proof -
  from run obtain cnt where
    "schedule_services as qry (retrieve_author_details post) verbose concur_req sched w
       = (Returns cnt, w')"
    by (auto simp: call_author_many_def split: prod.splits outcome.splits)
  from schedule_services_retrieve(3) [OF this] assms(2) show ?thesis by blast
qed

text \<open>What a task that returns has done.\<close>

lemma verdict_Returns:
  assumes "verdict post qry h a = Returns res"
  shows "\<exists>kvs src book_id.
           h a = VDict kvs \<and> map_of kvs ''_source'' = Some (VDict src)
         \<and> subscript (VDict src) ''id'' = Inr book_id
         \<and> (case call_service post AWS_AUTHOR_API (VDict [(''book_id'', book_id)]) ''POST'' of
              Inr rdata \<Rightarrow> res = Result ok a \<and> submitted post qry h a = [(rdata, qry, a)]
            | Inl exc \<Rightarrow> isinstance exc HTTPNotFound \<and> res = Result not_found a
                          \<and> submitted post qry h a = [])"
proof (cases "h a")
  case (VDict kvs)
  show ?thesis
  proof (cases "map_of kvs ''_source''")
    case None
    with VDict assms show ?thesis
      by (simp add: verdict_def retrieve_author_details_def)
  next
    case (Some s)
    show ?thesis
    proof (cases s)
      case src: (VDict src)
      show ?thesis
      proof (cases "map_of src ''id''")
        case None
        with VDict Some src assms show ?thesis
          by (simp add: verdict_def retrieve_author_details_def)
      next
        case book_id: (Some book_id)
        show ?thesis
        proof (cases "call_service post AWS_AUTHOR_API (VDict [(''book_id'', book_id)]) ''POST''")
          case (Inl exc)
          with VDict Some src book_id assms show ?thesis
            by (auto simp: verdict_def submitted_def retrieve_author_details_def Let_def
                split: if_splits)
        next
          case (Inr rdata)
          with VDict Some src book_id assms show ?thesis
            by (auto simp: verdict_def submitted_def retrieve_author_details_def Let_def)
        qed
      qed
    qed (use VDict Some assms in \<open>simp_all add: verdict_def retrieve_author_details_def\<close>)
  qed
qed (use assms in \<open>simp_all add: verdict_def retrieve_author_details_def\<close>)


lemma add_additional_data_to_record_dict:
  assumes "bd = VDict kvs" and "map_of kvs ''_source'' = Some (VDict src)"
    and "subscript rdata ''author'' = Inr author"
  shows "add_additional_data_to_record rdata qry bd
           = (Inr (), VDict (AList.update ''_source''
                (VDict (AList.update ''query'' qry (AList.update ''author'' author src))) kvs))"
  using assms
  by (simp add: add_additional_data_to_record_def store_source_def update_conv')

lemma add_additional_data_to_record_no_author:
  assumes "subscript rdata ''author'' = Inl e"
  shows "add_additional_data_to_record rdata qry bd = (Inl e, bd)"
  using assms by (simp add: add_additional_data_to_record_def)

text \<open>
  Claim C3, as stated, fails: a remote side that answers 200 with a body that has no
  \<^verbatim>\<open>author\<close> member gives the record the outcome \<^verbatim>\<open>ok\<close> (the tally counts it so),
  and the merge, run by the executor with nobody reading its result, raises
  \<^verbatim>\<open>KeyError\<close> and leaves the record without \<^verbatim>\<open>author\<close> and without \<^verbatim>\<open>query\<close>.
\<close>

theorem call_author_many_enrichment_counterexample:
  "fst (call_author_many authorless_transport [0] (VStr ''mystery'') (VInt 5) 2 []
          (fresh_world [book_a])) = Returns ()
   \<and> (case fst (schedule_services [0] (VStr ''mystery'') (retrieve_author_details authorless_transport)
                  (VInt 5) 2 [] (fresh_world [book_a])) of
         Returns cnt \<Rightarrow> cnt ok = 1 \<and> cnt not_found = 0 \<and> cnt error = 0
       | Raises e \<Rightarrow> False
       | Blocks \<Rightarrow> False)
   \<and> heap (run_executor (snd (call_author_many authorless_transport [0] (VStr ''mystery'')
          (VInt 5) 2 [] (fresh_world [book_a])))) 0 = book_a
   \<and> subscript book_a ''_source'' = Inr (VDict [(''id'', VInt 1), (''summary'', VStr ''a mystery'')])
   \<and> subscript (VDict [(''id'', VInt 1), (''summary'', VStr ''a mystery'')]) ''author''
       = Inl (new_exn KeyError [VStr ''author''])
   \<and> subscript (VDict [(''id'', VInt 1), (''summary'', VStr ''a mystery'')]) ''query''
       = Inl (new_exn KeyError [VStr ''query''])"
  by (simp add: call_author_many_def schedule_services_def Let_def retrieve_author_details_def
        fresh_world_def book_a_def authorless_transport_def call_service_def
        post_stage_def next_done_def run_executor_def run_job_def
        add_additional_data_to_record_def store_source_def)

text \<open>
  Claim C3, amended. After a batch over distinct records has returned and the executor has
  run the jobs it was given, for every record of the batch: its task returned \<^verbatim>\<open>ok\<close>
  or \<^verbatim>\<open>not_found\<close>. When the outcome is \<^verbatim>\<open>ok\<close>, the remote call returned a body and
  exactly one merge of that body was handed to the executor; if the body has an
  \<^verbatim>\<open>author\<close> member, the record's \<^verbatim>\<open>_source\<close> has that \<^verbatim>\<open>author\<close> and the query
  term as \<^verbatim>\<open>query\<close>; if it has none, the record is as it was. When the outcome is not
  \<^verbatim>\<open>ok\<close>, no merge was handed over and the record is as it was.
\<close>

theorem call_author_many_enrichment:
  assumes run: "call_author_many post records_list qry verbose concur_req sched w = (Returns u, w')"
    and dist: "distinct records_list" and empty: "executor w = []" and a: "a \<in> set records_list"
  shows "\<exists>res. verdict post qry (heap w) a = Returns res
     \<and> (res_status res = ok \<longrightarrow>
          (\<exists>book_id rdata.
              call_service post AWS_AUTHOR_API (VDict [(''book_id'', book_id)]) ''POST'' = Inr rdata
            \<and> submitted post qry (heap w) a = [(rdata, qry, a)]
            \<and> (\<forall>author. subscript rdata ''author'' = Inr author \<longrightarrow>
                 (\<exists>src'. subscript (heap (run_executor w') a) ''_source'' = Inr src'
                        \<and> subscript src' ''author'' = Inr author
                        \<and> subscript src' ''query'' = Inr qry))
            \<and> (\<forall>e. subscript rdata ''author'' = Inl e \<longrightarrow> heap (run_executor w') a = heap w a)))
     \<and> (res_status res \<noteq> ok \<longrightarrow>
          res_status res = not_found \<and> submitted post qry (heap w) a = []
        \<and> heap (run_executor w') a = heap w a)"
proof -
  from batch_verdicts [OF run a] obtain res where res: "verdict post qry (heap w) a = Returns res"
    by blast
  from verdict_Returns [OF res] obtain kvs src book_id where
    rec: "heap w a = VDict kvs" and src: "map_of kvs ''_source'' = Some (VDict src)"
    and cs: "(case call_service post AWS_AUTHOR_API (VDict [(''book_id'', book_id)]) ''POST'' of
              Inr rdata \<Rightarrow> res = Result ok a \<and> submitted post qry (heap w) a = [(rdata, qry, a)]
            | Inl exc \<Rightarrow> isinstance exc HTTPNotFound \<and> res = Result not_found a
                          \<and> submitted post qry (heap w) a = [])"
    by blast
  note settle = batch_settles [OF run dist empty, of a]
  show ?thesis
  proof (cases "call_service post AWS_AUTHOR_API (VDict [(''book_id'', book_id)]) ''POST''")
    case (Inl exc)
    with cs have "res = Result not_found a" and "submitted post qry (heap w) a = []"
      by simp_all
    with res settle a show ?thesis by simp
  next
    case (Inr rdata)
    with cs have ok: "res = Result ok a" and sub: "submitted post qry (heap w) a = [(rdata, qry, a)]"
      by simp_all
    from settle a sub
    have after: "heap (run_executor w') a = snd (add_additional_data_to_record rdata qry (heap w a))"
      by simp
    have with_author: "\<exists>src'. subscript (heap (run_executor w') a) ''_source'' = Inr src'
                        \<and> subscript src' ''author'' = Inr author
                        \<and> subscript src' ''query'' = Inr qry"
      if "subscript rdata ''author'' = Inr author" for author
      unfolding after add_additional_data_to_record_dict [OF rec src that]
      by (simp add: update_conv')
    have without: "heap (run_executor w') a = heap w a"
      if "subscript rdata ''author'' = Inl e" for e
      unfolding after add_additional_data_to_record_no_author [OF that] by simp
    from res ok Inr sub with_author without show ?thesis
      by (intro exI [of _ res]) auto
  qed
qed


theorem call_author_many_enrichment_witness:
  "fst (call_author_many answering_transport [0, 1] (VStr ''mystery'') (VInt 5) 2 [1]
          (fresh_world [book_a, book_b])) = Returns ()
   \<and> distinct [0::nat, 1]
   \<and> executor (fresh_world [book_a, book_b]) = []
   \<and> verdict answering_transport (VStr ''mystery'') (heap (fresh_world [book_a, book_b])) 0
       = Returns (Result ok 0)
   \<and> subscript (heap (run_executor (snd (call_author_many answering_transport [0, 1]
          (VStr ''mystery'') (VInt 5) 2 [1] (fresh_world [book_a, book_b])))) 0) ''_source''
       = Inr (VDict [(''id'', VInt 1), (''summary'', VStr ''a mystery''),
                     (''author'', VStr ''Ann''), (''query'', VStr ''mystery'')])"
  using call_author_many_enrichment
    [of answering_transport "[0, 1]" "VStr ''mystery''" "VInt 5" 2 "[1]"
        "fresh_world [book_a, book_b]" "()"
        "snd (call_author_many answering_transport [0, 1] (VStr ''mystery'') (VInt 5) 2 [1]
               (fresh_world [book_a, book_b]))" 0]
  by (simp add: call_author_many_def schedule_services_def Let_def retrieve_author_details_def
        fresh_world_def book_a_def book_b_def answering_transport_def call_service_def
        post_stage_def next_done_def verdict_def run_executor_def run_job_def
        add_additional_data_to_record_def store_source_def)


section \<open>The scheduler: the diagnostic of a fetch error\<close>

text \<open>
  Claim C7, as stated, fails: the diagnostic reads \<^verbatim>\<open>exc.__cause__.args[0]\<close> and guards
  against \<^verbatim>\<open>IndexError\<close> only. A \<^verbatim>\<open>FetchError\<close> raised without a cause makes it
  raise \<^verbatim>\<open>AttributeError\<close>, which leaves \<^verbatim>\<open>schedule_services\<close>.
\<close>

theorem error_msg_counterexample:
  "error_msg_of (FetchError_init (VInt 0) (VStr ''boom'') None) = Inl (new_exn AttributeError [])
   \<and> fst (schedule_services [0] (VStr ''mystery'') uncaused_fetch_error (VInt 5) 2 []
            (fresh_world [book_a]))
       = Raises (Exn AttributeError [] [] None
                   (Some (FetchError_init (VInt 0) (VStr ''boom'') None)))"
  by (simp add: error_msg_of_def FetchError_init_def schedule_services_def Let_def
      uncaused_fetch_error_def isinstance_def getattr_def raise_in_handler_def new_exn_def
      next_done_def)

text \<open>
  Claim C7, amended. For every \<^verbatim>\<open>FetchError\<close> that reaches the loop with an \<^verbatim>\<open>id\<close>
  and a cause, the diagnostic does not raise: it is the first argument of the cause when
  the cause has arguments and the class name of the cause otherwise. The loop reports it
  when \<^verbatim>\<open>verbose\<close> and the diagnostic are both true, counts the record under
  \<^verbatim>\<open>error\<close> and goes on with the remaining futures.
\<close>

theorem consume_fetch_error:
  assumes "future w = (Raises exc, w')"
    and "isinstance exc FetchError"
    and "getattr exc ''id'' = Inr ident"
    and "exn_cause exc = Some c"
  shows "\<exists>error_msg.
           error_msg_of exc = Inr error_msg
         \<and> error_msg = (case exn_args c of a # as \<Rightarrow> a | [] \<Rightarrow> VStr (class_name (exn_class c)))
         \<and> consume (future # rest) verbose cnt stuck w
             = consume rest verbose (cnt(error := cnt error + 1)) stuck
                 (if truthy verbose \<and> truthy error_msg
                  then w'\<lparr>events := events w' @ [ErrorReport ident error_msg]\<rparr> else w')"
  using assms
  by (cases "exn_args c") (simp_all add: error_msg_of_def Let_def)

theorem consume_fetch_error_witness:
  "caused_fetch_error 0 (VStr ''mystery'') (VInt 5) (fresh_world [book_a])
      = (Raises (FetchError_init (VInt 0) (VStr ''boom'') (Some (new_exn KeyError []))),
         fresh_world [book_a])
   \<and> isinstance (FetchError_init (VInt 0) (VStr ''boom'') (Some (new_exn KeyError []))) FetchError
   \<and> getattr (FetchError_init (VInt 0) (VStr ''boom'') (Some (new_exn KeyError []))) ''id''
        = Inr (VInt 0)
   \<and> error_msg_of (FetchError_init (VInt 0) (VStr ''boom'') (Some (new_exn KeyError [])))
        = Inr (VStr ''KeyError'')
   \<and> error_msg_of (FetchError_init (VInt 0) (VStr ''boom'')
          (Some (new_exn PlainException [VStr ''no route''])))
        = Inr (VStr ''no route'')
   \<and> (case fst (consume [caused_fetch_error 0 (VStr ''mystery'') (VInt 5)] (VInt 5) (\<lambda>s. 0) False
                  (fresh_world [book_a])) of
         Returns cnt \<Rightarrow> cnt ok = 0 \<and> cnt not_found = 0 \<and> cnt error = 1
       | Raises e \<Rightarrow> False
       | Blocks \<Rightarrow> False)"
  using consume_fetch_error
    [of "caused_fetch_error 0 (VStr ''mystery'') (VInt 5)" "fresh_world [book_a]"
        "FetchError_init (VInt 0) (VStr ''boom'') (Some (new_exn KeyError []))"
        "fresh_world [book_a]" "VInt 0" "new_exn KeyError []" "[]" "VInt 5" "\<lambda>s. 0" False]
  by (simp add: caused_fetch_error_def FetchError_init_def isinstance_def getattr_def
      new_exn_def error_msg_of_def)


section \<open>The batch runner: concurrency arguments\<close>

lemma retrieve_author_details_events:
  "retrieve_author_details post a qry verbose w = (r, w') \<Longrightarrow> events w' = events w"
  by (auto simp: retrieve_author_details_def Let_def split: sum.splits if_splits)

lemma consume_retrieve_events:
  "consume (map (\<lambda>a. retrieve_author_details post a qry verbose) as) verbose cnt stuck w = (r, w')
   \<Longrightarrow> events w' = events w"
proof (induction as arbitrary: cnt stuck w)
  case Nil
  then show ?case by auto
next
  case (Cons a as)
  obtain r1 w1 where fw: "retrieve_author_details post a qry verbose w = (r1, w1)"
    by (cases "retrieve_author_details post a qry verbose w")
  note ev = retrieve_author_details_events [OF fw]
  show ?case
  proof (cases r1)
    case (Returns res)
    with Cons.prems fw Cons.IH ev show ?thesis by simp
  next
    case (Raises e)
    with fw retrieve_author_details_no_FetchError have "\<not> isinstance e FetchError"
      by blast
    with Cons.prems fw Raises ev show ?thesis by auto
  next
    case Blocks
    with Cons.prems fw Cons.IH ev show ?thesis by simp
  qed
qed

lemma call_author_many_events:
  assumes "call_author_many post as qry verbose concur_req sched w = (r, w')"
    and "truthy verbose" and "0 \<le> concur_req"
  shows "events w' = events w @ [SemaphoreCreated concur_req]"
proof -
  obtain r0 where sch:
    "schedule_services as qry (retrieve_author_details post) verbose concur_req sched w = (r0, w')"
    using assms(1)
    by (auto simp: call_author_many_def split: prod.splits outcome.splits)
  define w1 where "w1 = w\<lparr>free_slots := concur_req,
                   events := events w @ [SemaphoreCreated concur_req]\<rparr>"
  from sch assms(2,3)
  have "consume (as_completed sched (map (\<lambda>a. retrieve_author_details post a qry verbose) as))
          verbose (\<lambda>s. 0) False w1 = (r0, w')"
    by (simp add: schedule_services_def Let_def w1_def)
  then have "consume (map (\<lambda>a. retrieve_author_details post a qry verbose) (as_completed sched as))
          verbose (\<lambda>s. 0) False w1 = (r0, w')"
    by (simp only: as_completed_map)
  from consume_retrieve_events [OF this] show ?thesis
    by (simp add: w1_def)
qed

lemma run_queries_events:
  "run_queries search sz post sched k qs result evs = (r, evs')
   \<Longrightarrow> \<exists>m \<le> length qs. evs' = evs @ replicate m (SemaphoreCreated MAX_CONCUR_REQ)
         \<and> ((\<exists>res. r = Returns res) \<longrightarrow> m = length qs)"
proof (induction qs arbitrary: k result evs)
  case Nil
  then show ?case by auto
next
  case (Cons qry rest)
  show ?case
  proof (cases "search qry sz")
    case (Inl e)
    with Cons.prems show ?thesis
      by (intro exI [of _ 0]) auto
  next
    case (Inr list_doc)
    obtain r1 w1 where cam:
      "call_author_many post [0 ..< length list_doc] qry (VInt DEFAULT_CONCUR_REQ) MAX_CONCUR_REQ
         (sched k) (fresh_world list_doc) = (r1, w1)"
      by (cases "call_author_many post [0 ..< length list_doc] qry (VInt DEFAULT_CONCUR_REQ)
         MAX_CONCUR_REQ (sched k) (fresh_world list_doc)")
    from call_author_many_events [OF cam]
    have ev: "events w1 = [SemaphoreCreated MAX_CONCUR_REQ]"
      by (simp add: DEFAULT_CONCUR_REQ_def MAX_CONCUR_REQ_def fresh_world_def)
    show ?thesis
    proof (cases r1)
      case (Returns u)
      with Cons.prems Inr cam ev
      have "run_queries search sz post sched (Suc k) rest
              (result @ [settled w1 [0 ..< length list_doc]])
              (evs @ [SemaphoreCreated MAX_CONCUR_REQ]) = (r, evs')"
        by (simp add: Let_def)
      from Cons.IH [OF this] obtain m where
        "m \<le> length rest"
        "evs' = (evs @ [SemaphoreCreated MAX_CONCUR_REQ]) @ replicate m (SemaphoreCreated MAX_CONCUR_REQ)"
        "(\<exists>res. r = Returns res) \<longrightarrow> m = length rest"
        by blast
      then show ?thesis
        by (intro exI [of _ "Suc m"]) simp
    next
      case (Raises e)
      with Cons.prems Inr cam ev show ?thesis
        by (intro exI [of _ 1]) (auto simp: Let_def)
    next
      case Blocks
      with Cons.prems Inr cam ev show ?thesis
        by (intro exI [of _ 1]) (auto simp: Let_def)
    qed
  qed
qed

lemma mystery_romance_run:
  "run_query_list mystery_romance answering_transport submission_order =
     (Returns
       [[VDict [(''_id'', VStr ''a1''),
           (''_source'', VDict [(''id'', VInt 1), (''summary'', VStr ''a mystery''),
                               (''author'', VStr ''Ann''), (''query'', VStr ''mystery'')])],
         VDict [(''_id'', VStr ''b2''),
           (''_source'', VDict [(''id'', VInt 2), (''summary'', VStr ''a romance''),
                               (''author'', VStr ''Ann''), (''query'', VStr ''mystery'')])]],
        [VDict [(''_id'', VStr ''a1''),
           (''_source'', VDict [(''id'', VInt 1), (''summary'', VStr ''a mystery''),
                               (''author'', VStr ''Ann''), (''query'', VStr ''romance'')])],
         VDict [(''_id'', VStr ''b2''),
           (''_source'', VDict [(''id'', VInt 2), (''summary'', VStr ''a romance''),
                               (''author'', VStr ''Ann''), (''query'', VStr ''romance'')])]]],
      [SemaphoreCreated 1000, SemaphoreCreated 1000])"
  by (simp add: run_query_list_def mystery_romance_def two_hits_def submission_order_def
        call_author_many_def schedule_services_def Let_def retrieve_author_details_def
        fresh_world_def book_a_def book_b_def answering_transport_def call_service_def
        post_stage_def next_done_def run_executor_def run_job_def settled_def
        add_additional_data_to_record_def store_source_def DEFAULT_CONCUR_REQ_def
        MAX_CONCUR_REQ_def upt_rec)

text \<open>
  Claim C4. \<^verbatim>\<open>run_query_list\<close> passes \<^verbatim>\<open>DEFAULT_CONCUR_REQ\<close> in the place of
  \<^verbatim>\<open>verbose\<close> and \<^verbatim>\<open>MAX_CONCUR_REQ\<close> in the place of \<^verbatim>\<open>concur_req\<close>. So in every
  run, whatever the service, the remote side and the order of completion, and however the
  run ends: every semaphore is created with 1000 slots, never with 5, and no progress bar is
  ever set up, 5 being a true value. A run that returns has created one semaphore for each
  query term.
\<close>

theorem run_query_list_concurrency_arguments:
  assumes "run_query_list self post sched = (r, evs)"
  shows "(\<forall>ev \<in> set evs. ev = SemaphoreCreated MAX_CONCUR_REQ)
       \<and> MAX_CONCUR_REQ = 1000
       \<and> SemaphoreCreated DEFAULT_CONCUR_REQ \<notin> set evs
       \<and> (\<forall>n. ProgressBar n \<notin> set evs)
       \<and> truthy (VInt DEFAULT_CONCUR_REQ)
       \<and> (\<forall>res. r = Returns res \<longrightarrow> length evs = length (query_list self))"
proof -
  from assms run_queries_events
    [of "search_instance self" "size_limit self" post sched 0 "query_list self" "[]" "[]" r evs]
  obtain m where "m \<le> length (query_list self)"
    and evs: "evs = replicate m (SemaphoreCreated MAX_CONCUR_REQ)"
    and m: "(\<exists>res. r = Returns res) \<longrightarrow> m = length (query_list self)"
    by (auto simp: run_query_list_def)
  have "SemaphoreCreated DEFAULT_CONCUR_REQ \<noteq> SemaphoreCreated MAX_CONCUR_REQ"
    by (simp add: DEFAULT_CONCUR_REQ_def MAX_CONCUR_REQ_def)
  with evs m show ?thesis
    by (auto simp: MAX_CONCUR_REQ_def DEFAULT_CONCUR_REQ_def)
qed


theorem run_query_list_concurrency_arguments_witness:
  "\<exists>r. run_query_list mystery_romance answering_transport submission_order
          = (r, [SemaphoreCreated 1000, SemaphoreCreated 1000])
     \<and> SemaphoreCreated DEFAULT_CONCUR_REQ \<notin> set [SemaphoreCreated 1000, SemaphoreCreated 1000]
     \<and> ProgressBar 2 \<notin> set [SemaphoreCreated 1000, SemaphoreCreated 1000]
     \<and> length [SemaphoreCreated 1000, SemaphoreCreated 1000] = length (query_list mystery_romance)"
  using run_query_list_concurrency_arguments [OF mystery_romance_run] mystery_romance_run
  by (simp add: DEFAULT_CONCUR_REQ_def mystery_romance_def)

section \<open>The batch runner: the output list\<close>

lemma batch_record:
  assumes run: "call_author_many post [0 ..< n] qry verbose concur_req sched (fresh_world docs)
                  = (Returns u, w')"
    and n: "n = length docs" and j: "j < n"
  shows "settled w' [0 ..< n] ! j = docs ! j
       \<or> (\<exists>book_id rdata.
             call_service post AWS_AUTHOR_API (VDict [(''book_id'', book_id)]) ''POST'' = Inr rdata
           \<and> settled w' [0 ..< n] ! j = snd (add_additional_data_to_record rdata qry (docs ! j)))"
proof -
  have h: "heap (fresh_world docs) j = docs ! j"
    using n j by (simp add: fresh_world_def)
  have jin: "j \<in> set [0 ..< n]" using j by simp
  have s: "settled w' [0 ..< n] ! j = heap (run_executor w') j"
    using j by (simp add: settled_def)
  from batch_verdicts [OF run jin] obtain res where
    res: "verdict post qry (heap (fresh_world docs)) j = Returns res" by blast
  from verdict_Returns [OF res] obtain book_id where
    cs: "(case call_service post AWS_AUTHOR_API (VDict [(''book_id'', book_id)]) ''POST'' of
              Inr rdata \<Rightarrow> res = Result ok j
                \<and> submitted post qry (heap (fresh_world docs)) j = [(rdata, qry, j)]
            | Inl exc \<Rightarrow> isinstance exc HTTPNotFound \<and> res = Result not_found j
                \<and> submitted post qry (heap (fresh_world docs)) j = [])"
    by blast
  have "executor (fresh_world docs) = []" by (simp add: fresh_world_def)
  note settle = batch_settles [OF run _ this, of j]
  show ?thesis
  proof (cases "call_service post AWS_AUTHOR_API (VDict [(''book_id'', book_id)]) ''POST''")
    case (Inl exc)
    with cs settle jin h s show ?thesis by simp
  next
    case (Inr rdata)
    with cs settle jin h s
    have "settled w' [0 ..< n] ! j = snd (add_additional_data_to_record rdata qry (docs ! j))"
      by simp
    with Inr show ?thesis by blast
  qed
qed

lemma run_queries_result:
  "run_queries search sz post sched k qs result evs = (Returns res, evs')
   \<Longrightarrow> \<exists>new. res = result @ new \<and> length new = length qs
        \<and> (\<forall>i < length qs. \<exists>docs.
              search (qs ! i) sz = Inr docs \<and> length (new ! i) = length docs
            \<and> (\<forall>j < length docs.
                  new ! i ! j = docs ! j
                \<or> (\<exists>book_id rdata.
                      call_service post AWS_AUTHOR_API (VDict [(''book_id'', book_id)]) ''POST''
                        = Inr rdata
                    \<and> new ! i ! j = snd (add_additional_data_to_record rdata (qs ! i) (docs ! j)))))"
proof (induction qs arbitrary: k result evs)
  case Nil
  then show ?case by simp
next
  case (Cons qry rest)
  from Cons.prems obtain list_doc where docs: "search qry sz = Inr list_doc"
    by (cases "search qry sz") simp_all
  define n where "n = length list_doc"
  obtain r1 w1 where cam:
    "call_author_many post [0 ..< n] qry (VInt DEFAULT_CONCUR_REQ) MAX_CONCUR_REQ
       (sched k) (fresh_world list_doc) = (r1, w1)"
    by (cases "call_author_many post [0 ..< n] qry (VInt DEFAULT_CONCUR_REQ)
       MAX_CONCUR_REQ (sched k) (fresh_world list_doc)")
  from Cons.prems docs cam obtain u where r1: "r1 = Returns u"
    by (cases r1) (simp_all add: Let_def n_def)
  define recs where "recs = settled w1 [0 ..< n]"
  from Cons.prems docs cam r1
  have "run_queries search sz post sched (Suc k) rest (result @ [recs]) (evs @ events w1)
          = (Returns res, evs')"
    by (simp add: Let_def n_def recs_def)
  from Cons.IH [OF this] obtain new where
    new: "res = (result @ [recs]) @ new" "length new = length rest"
    and rest: "\<forall>i < length rest. \<exists>docs.
              search (rest ! i) sz = Inr docs \<and> length (new ! i) = length docs
            \<and> (\<forall>j < length docs.
                  new ! i ! j = docs ! j
                \<or> (\<exists>book_id rdata.
                      call_service post AWS_AUTHOR_API (VDict [(''book_id'', book_id)]) ''POST''
                        = Inr rdata
                    \<and> new ! i ! j = snd (add_additional_data_to_record rdata (rest ! i) (docs ! j))))"
    by blast
  have len: "length recs = length list_doc"
    by (simp add: recs_def settled_def n_def)
  have first: "\<forall>j < length list_doc.
                  recs ! j = list_doc ! j
                \<or> (\<exists>book_id rdata.
                      call_service post AWS_AUTHOR_API (VDict [(''book_id'', book_id)]) ''POST''
                        = Inr rdata
                    \<and> recs ! j = snd (add_additional_data_to_record rdata qry (list_doc ! j)))"
    using batch_record [OF cam [unfolded r1] n_def] by (simp add: recs_def n_def)
  have "\<exists>docs. search ((qry # rest) ! i) sz = Inr docs \<and> length ((recs # new) ! i) = length docs
            \<and> (\<forall>j < length docs.
                  (recs # new) ! i ! j = docs ! j
                \<or> (\<exists>book_id rdata.
                      call_service post AWS_AUTHOR_API (VDict [(''book_id'', book_id)]) ''POST''
                        = Inr rdata
                    \<and> (recs # new) ! i ! j
                        = snd (add_additional_data_to_record rdata ((qry # rest) ! i) (docs ! j))))"
    if "i < length (qry # rest)" for i
  proof (cases i)
    case 0
    with docs len first show ?thesis by simp
  next
    case (Suc i')
    with that rest show ?thesis by simp
  qed
  with new show ?case
    by (intro exI [of _ "recs # new"]) simp
qed

text \<open>
  Claim C9. The list that \<^verbatim>\<open>run_query_list\<close> returns has one element for each query
  term, in the order of the terms. The element at index \<open>i\<close> is the list of records the
  search backend gave for the term at index \<open>i\<close>, record for record in the same order,
  each record either as the backend gave it or as the enrichment with the body of a
  remote answer and that term left it.
\<close>

theorem run_query_list_order:
  assumes "run_query_list self post sched = (Returns result, evs)"
  shows "length result = length (query_list self)
       \<and> (\<forall>i < length (query_list self). \<exists>docs.
              search_instance self (query_list self ! i) (size_limit self) = Inr docs
            \<and> length (result ! i) = length docs
            \<and> (\<forall>j < length docs.
                  result ! i ! j = docs ! j
                \<or> (\<exists>book_id rdata.
                      call_service post AWS_AUTHOR_API (VDict [(''book_id'', book_id)]) ''POST''
                        = Inr rdata
                    \<and> result ! i ! j
                        = snd (add_additional_data_to_record rdata (query_list self ! i) (docs ! j)))))"
  using run_queries_result [OF assms [unfolded run_query_list_def]]
  by auto


theorem run_query_list_order_witness:
  "\<exists>result evs.
      run_query_list mystery_romance answering_transport submission_order = (Returns result, evs)
    \<and> length result = 2 \<and> length (result ! 0) = 2 \<and> length (result ! 1) = 2
    \<and> result ! 0 ! 0 = VDict [(''_id'', VStr ''a1''),
           (''_source'', VDict [(''id'', VInt 1), (''summary'', VStr ''a mystery''),
                               (''author'', VStr ''Ann''), (''query'', VStr ''mystery'')])]
    \<and> result ! 1 ! 1 = VDict [(''_id'', VStr ''b2''),
           (''_source'', VDict [(''id'', VInt 2), (''summary'', VStr ''a romance''),
                               (''author'', VStr ''Ann''), (''query'', VStr ''romance'')])]"
  using run_query_list_order [OF mystery_romance_run] mystery_romance_run
  by simp

section \<open>The scheduler: failures of the remote side\<close>

lemma str_add_error_class: "str_add lit v = Inl e \<Longrightarrow> exn_class e = TypeError"
  by (cases v) (auto simp: new_exn_def)

lemma call_service_connector:
  assumes "post url payload = Inl ce" and "isinstance ce ClientConnectorError"
  shows "\<exists>e. call_service post url payload ''POST'' = Inl e \<and> \<not> isinstance e HTTPNotFound"
proof (cases "str_add ''call author aws service: '' (strerror ce)")
  case (Inl te)
  with assms str_add_error_class [OF Inl] show ?thesis
    by (simp add: call_service_def post_stage_def raise_in_handler_def isinstance_def)
next
  case (Inr message)
  with assms show ?thesis
    by (simp add: call_service_def post_stage_def raise_in_handler_def isinstance_def new_exn_def)
qed

text \<open>
  Claim C1 against the code: when the transport raises a connector error for every call,
  a batch of one record or more never returns a tally. \<^verbatim>\<open>call_service\<close> turns the error
  into a plain \<^verbatim>\<open>Exception\<close>, \<^verbatim>\<open>retrieve_author_details\<close> wraps that in another
  plain \<^verbatim>\<open>Exception\<close>, and the loop of \<^verbatim>\<open>schedule_services\<close> takes
  \<^verbatim>\<open>FetchError\<close> only: the exception of the first task that finishes ends the run.
\<close>

theorem schedule_services_connection_failure:
  assumes refused: "\<forall>url payload. \<exists>ce. post url payload = Inl ce \<and> isinstance ce ClientConnectorError"
    and some: "records_list \<noteq> []"
  shows "\<forall>cnt w'. schedule_services records_list qry (retrieve_author_details post) verbose
                    concur_req sched w \<noteq> (Returns cnt, w')"
proof (intro allI notI)
  fix cnt w'
  assume run: "schedule_services records_list qry (retrieve_author_details post) verbose
                 concur_req sched w = (Returns cnt, w')"
  from some obtain a where "a \<in> set records_list"
    by (cases records_list) auto
  with schedule_services_retrieve(3) [OF run] obtain res where
    "verdict post qry (heap w) a = Returns res" by blast
  from verdict_Returns [OF this] obtain book_id where
    cs: "(case call_service post AWS_AUTHOR_API (VDict [(''book_id'', book_id)]) ''POST'' of
              Inr rdata \<Rightarrow> res = Result ok a
                \<and> submitted post qry (heap w) a = [(rdata, qry, a)]
            | Inl exc \<Rightarrow> isinstance exc HTTPNotFound \<and> res = Result not_found a
                \<and> submitted post qry (heap w) a = [])"
    by blast
  from refused obtain ce where
    "post AWS_AUTHOR_API (VDict [(''book_id'', book_id)]) = Inl ce"
    "isinstance ce ClientConnectorError"
    by blast
  from call_service_connector [of post AWS_AUTHOR_API "VDict [(''book_id'', book_id)]" ce] this cs
  show False
    by auto
qed

theorem schedule_services_connection_failure_witness:
  "(\<forall>url payload. \<exists>ce. refusing_transport url payload = Inl ce \<and> isinstance ce ClientConnectorError)
   \<and> [0::nat, 1] \<noteq> []
   \<and> fst (schedule_services [0, 1] (VStr ''mystery'') (retrieve_author_details refusing_transport)
       (VInt 5) 2 [] (fresh_world [book_a, book_b]))
   = Raises (Exn PlainException
       [VExn (Exn PlainException [VStr ''call author aws service: Connection refused''] [] None
                (Some connection_refused))]
       [] None
       (Some (Exn PlainException [VStr ''call author aws service: Connection refused''] [] None
                (Some connection_refused))))"
proof -
  have h: "\<forall>url payload. \<exists>ce. refusing_transport url payload = Inl ce
             \<and> isinstance ce ClientConnectorError"
    by (simp add: refusing_transport_def connection_refused_def isinstance_def)
  have run: "fst (schedule_services [0, 1] (VStr ''mystery'') (retrieve_author_details refusing_transport)
       (VInt 5) 2 [] (fresh_world [book_a, book_b]))
   = Raises (Exn PlainException
       [VExn (Exn PlainException [VStr ''call author aws service: Connection refused''] [] None
                (Some connection_refused))]
       [] None
       (Some (Exn PlainException [VStr ''call author aws service: Connection refused''] [] None
                (Some connection_refused))))"
    by (simp add: schedule_services_def Let_def retrieve_author_details_def fresh_world_def
        book_a_def book_b_def refusing_transport_def call_service_def post_stage_def
        next_done_def isinstance_def strerror_def connection_refused_def raise_in_handler_def
        new_exn_def)
  from schedule_services_connection_failure [OF h, of "[0, 1]"] h run show ?thesis
    by simp
qed

section \<open>Tasks side by side: the semaphore\<close>

text \<open>Run without interruption, the phases of a task are \<^verbatim>\<open>retrieve_author_details\<close>.\<close>

lemma retrieve_author_details_steps:
  "retrieve_author_details post a qry verbose w =
     (case begin_task a w of
        Waiting payload \<Rightarrow>
          if free_slots w \<le> 0 then (Blocks, w)
          else leave_block post a qry payload (w\<lparr>free_slots := free_slots w - 1\<rparr>)
      | Finished r \<Rightarrow> (r, w)
      | other \<Rightarrow> (Blocks, w))"
  by (simp add: retrieve_author_details_def begin_task_def leave_block_def Let_def
      split: sum.splits)

lemma leave_block_slots:
  "leave_block post a qry payload w = (r, w') \<Longrightarrow> free_slots w' = free_slots w + 1"
  by (auto simp: leave_block_def Let_def split: sum.splits if_splits)

lemma count_update:
  "i < length xs \<Longrightarrow>
   int (length (filter P (xs[i := y])))
     = int (length (filter P xs)) - (if P (xs ! i) then 1 else 0) + (if P y then 1 else 0)"
proof (induction xs arbitrary: i)
  case Nil
  then show ?case by simp
next
  case (Cons x xs)
  show ?case
  proof (cases i)
    case 0
    then show ?thesis by simp
  next
    case (Suc n)
    with Cons.prems have "n < length xs" by simp
    from Cons.IH [OF this] Suc show ?thesis by (auto split: if_splits)
  qed
qed

lemma begin_task_holds: "\<not> holds_slot (a, begin_task a w)"
  by (simp add: begin_task_def split: sum.splits)

lemma step_task_invariant:
  assumes "int (in_flight s) + free_slots (pool_world s) = c" and "0 \<le> free_slots (pool_world s)"
  shows "int (in_flight (step_task post qry i s)) + free_slots (pool_world (step_task post qry i s)) = c
       \<and> 0 \<le> free_slots (pool_world (step_task post qry i s))"
proof (cases "length (pool_tasks s) \<le> i")
  case True
  with assms show ?thesis by (simp add: step_task_def)
next
  case False
  then have i: "i < length (pool_tasks s)" by simp
  obtain a ph where t: "pool_tasks s ! i = (a, ph)" by (cases "pool_tasks s ! i")
  show ?thesis
  proof (cases ph)
    case Created
    with assms i t begin_task_holds [of a "pool_world s"] show ?thesis
      by (simp add: step_task_def in_flight_def count_update)
  next
    case (Waiting payload)
    with assms i t show ?thesis
      by (simp add: step_task_def in_flight_def count_update)
  next
    case (InFlight payload)
    obtain r w' where lb: "leave_block post a qry payload (pool_world s) = (r, w')"
      by (cases "leave_block post a qry payload (pool_world s)")
    with assms i t InFlight leave_block_slots [OF lb] show ?thesis
      by (simp add: step_task_def in_flight_def count_update)
  next
    case (Finished r)
    with assms i t show ?thesis
      by (simp add: step_task_def)
  qed
qed

lemma run_pool_invariant:
  assumes "int (in_flight s) + free_slots (pool_world s) = c" and "0 \<le> free_slots (pool_world s)"
  shows "int (in_flight (run_pool post qry sched s)) + free_slots (pool_world (run_pool post qry sched s)) = c
       \<and> 0 \<le> free_slots (pool_world (run_pool post qry sched s))"
  using assms
proof (induction sched arbitrary: s)
  case Nil
  then show ?case by (simp add: run_pool_def)
next
  case (Cons i sched)
  from step_task_invariant [OF Cons.prems, of post qry i]
  have "int (in_flight (step_task post qry i s)) + free_slots (pool_world (step_task post qry i s)) = c"
    and "0 \<le> free_slots (pool_world (step_task post qry i s))"
    by simp_all
  from Cons.IH [OF this] show ?case
    by (simp add: run_pool_def)
qed

text \<open>
  Claim C10. In a batch started with a concurrency limit that \<^verbatim>\<open>asyncio.Semaphore\<close>
  accepts, whatever the order in which the tasks take their steps: after every step the
  number of tasks inside the \<^verbatim>\<open>with\<close> block, that is the number of remote calls in
  flight, is at most the limit; and the free slots and the slots held add up to the limit,
  so a slot is held by a task exactly while its remote call is in flight and is given back
  once, on whichever way the call ends.
\<close>

theorem in_flight_bounded:
  assumes "0 \<le> concur_req"
  shows "int (in_flight (run_pool post qry sched (start_pool records_list concur_req w))) \<le> concur_req
       \<and> int (in_flight (run_pool post qry sched (start_pool records_list concur_req w)))
           + free_slots (pool_world (run_pool post qry sched (start_pool records_list concur_req w)))
         = concur_req"
proof -
  have "filter holds_slot (map (\<lambda>a. (a, Created)) records_list) = []"
    by (induction records_list) simp_all
  then have "int (in_flight (start_pool records_list concur_req w))
        + free_slots (pool_world (start_pool records_list concur_req w)) = concur_req"
    by (simp add: start_pool_def in_flight_def)
  moreover have "0 \<le> free_slots (pool_world (start_pool records_list concur_req w))"
    using assms by (simp add: start_pool_def)
  ultimately show ?thesis
    using run_pool_invariant [of "start_pool records_list concur_req w" concur_req post qry sched]
    by simp
qed

theorem in_flight_bounded_witness:
  "(0::int) \<le> 1
   \<and> pool_tasks (run_pool answering_transport (VStr ''mystery'') [0, 1, 0, 1]
              (start_pool [0, 1] 1 (fresh_world [book_a, book_b])))
       = [(0, InFlight (VDict [(''book_id'', VInt 1)])), (1, Waiting (VDict [(''book_id'', VInt 2)]))]
   \<and> int (in_flight (run_pool answering_transport (VStr ''mystery'') [0, 1, 0, 1]
              (start_pool [0, 1] 1 (fresh_world [book_a, book_b])))) \<le> 1
   \<and> free_slots (pool_world (run_pool answering_transport (VStr ''mystery'') [0, 1, 0, 1]
              (start_pool [0, 1] 1 (fresh_world [book_a, book_b])))) = 0"
  using in_flight_bounded [of 1 answering_transport "VStr ''mystery''" "[0, 1, 0, 1]" "[0, 1]"
          "fresh_world [book_a, book_b]"]
  by (simp add: run_pool_def start_pool_def step_task_def begin_task_def fresh_world_def
        book_a_def book_b_def in_flight_def)

end
